theory Spec2Isabelle
  imports Complex_Main
begin

section \<open>Values of the host language\<close>

text \<open>
  A JavaScript string is a sequence of UTF-16 code units. The share-state codec calls
  \<open>btoa\<close>, whose behaviour depends on whether a code unit exceeds \<open>0xFF\<close>, so strings are
  lists of code units (naturals below \<open>2^16\<close>) and not lists of 8-bit characters.
  \<open>str\<close> embeds a Latin-1 literal.
\<close>

type_synonym jsstring = "nat list"

definition str :: "string \<Rightarrow> jsstring" where
  "str s = map of_char s"

text \<open>
  A value of type \<open>number\<close> at the places where the source itself tests
  \<open>Number.isFinite\<close>: a finite value or one of the three non-finite ones. Everywhere else a
  number is finite and integral: configuration data is JSON of integers (section 3 of the
  specification), and every producer of a score (\<open>createInitialScores\<close>,
  \<open>normalizeScoresForDimensions\<close>, the accumulation in \<open>handleAnswer\<close>) yields a finite value.
  On integers of this size double arithmetic is exact.
\<close>

datatype 'a jsnum = Fin 'a | PosInf | NegInf | NaN

fun isFinite :: "'a jsnum \<Rightarrow> bool" where
  "isFinite (Fin x) = True"
| "isFinite _ = False"

text \<open>The comparisons \<open><=\<close> and \<open>>\<close> of IEEE numbers: false as soon as one side is NaN.\<close>

fun jle :: "('a::linorder) jsnum \<Rightarrow> 'a jsnum \<Rightarrow> bool" where
  "jle NaN _ = False"
| "jle _ NaN = False"
| "jle NegInf _ = True"
| "jle _ PosInf = True"
| "jle (Fin a) (Fin b) = (a \<le> b)"
| "jle _ _ = False"

fun jgt :: "('a::linorder) jsnum \<Rightarrow> 'a jsnum \<Rightarrow> bool" where
  "jgt NaN _ = False"
| "jgt _ NaN = False"
| "jgt PosInf PosInf = False"
| "jgt NegInf NegInf = False"
| "jgt PosInf _ = True"
| "jgt _ NegInf = True"
| "jgt (Fin a) (Fin b) = (a > b)"
| "jgt _ _ = False"

text \<open>
  The exceptions of the platform functions the engine calls: \<open>btoa\<close> and \<open>atob\<close> throw
  an \<open>InvalidCharacterError\<close>, \<open>JSON.parse\<close> a \<open>SyntaxError\<close>, \<open>decodeURIComponent\<close> a
  \<open>URIError\<close>. A function that may throw returns \<open>error + 'a\<close>.
\<close>

datatype error = InvalidCharacterError | SyntaxError | URIError

text \<open>\<open>xs[i]\<close>: \<open>undefined\<close> (here \<open>None\<close>) outside the array.\<close>

fun nth_opt :: "'a list \<Rightarrow> nat \<Rightarrow> 'a option" where
  "nth_opt [] i = None"
| "nth_opt (x # xs) 0 = Some x"
| "nth_opt (x # xs) (Suc i) = nth_opt xs i"

text \<open>Truthiness of an optional string: absent and the empty string are falsy.\<close>

fun truthy :: "jsstring option \<Rightarrow> bool" where
  "truthy None = False"
| "truthy (Some s) = (s \<noteq> [])"

text \<open>
  \<open>Array.prototype.sort\<close> with a comparator is a stable sort (ECMAScript 2019): elements
  that compare equal keep their order. For a consistent comparator every stable sort
  returns the same array; the model is insertion from the right, where an element goes
  in front of the first one it does not compare greater than.
\<close>

fun insert_cmp :: "('a \<Rightarrow> 'a \<Rightarrow> int) \<Rightarrow> 'a \<Rightarrow> 'a list \<Rightarrow> 'a list" where
  "insert_cmp cmp x [] = [x]"
| "insert_cmp cmp x (y # ys) =
     (if cmp x y \<le> 0 then x # y # ys else y # insert_cmp cmp x ys)"

definition array_sort :: "('a \<Rightarrow> 'a \<Rightarrow> int) \<Rightarrow> 'a list \<Rightarrow> 'a list" where
  "array_sort cmp xs = foldr (insert_cmp cmp) xs []"

section \<open>Data model\<close>

record Dimension =
  dim_id :: jsstring
  dim_label :: jsstring
  dim_left :: jsstring
  dim_right :: jsstring
  dim_description :: "jsstring option"

text \<open>
  \<open>ScoreMap = Record<string, number>\<close>: an object whose own properties are listed in
  insertion order by \<open>Object.entries\<close>, hence an association list. Reading a key takes its
  first binding; the properties inherited from \<open>Object.prototype\<close> are not modelled.
\<close>

type_synonym ScoreMap = "(jsstring \<times> int) list"

text \<open>\<open>scoreMap[k] ?? 0\<close>\<close>

definition score_of :: "ScoreMap \<Rightarrow> jsstring \<Rightarrow> int" where
  "score_of scoreMap k = (case map_of scoreMap k of Some v \<Rightarrow> v | None \<Rightarrow> 0)"

text \<open>\<open>obj[k] = v\<close>: an existing key keeps its position, a new one goes last.\<close>

fun assign :: "'k \<Rightarrow> 'v \<Rightarrow> ('k \<times> 'v) list \<Rightarrow> ('k \<times> 'v) list" where
  "assign k v [] = [(k, v)]"
| "assign k v ((k', v') # kvs) =
     (if k' = k then (k, v) # kvs else (k', v') # assign k v kvs)"

datatype cond_op = Gt | Lt | Lte | Eq | Gte

record ResultCondition =
  c_type :: "jsstring option"
  c_dim :: "jsstring option"
  c_op :: "cond_op option"
  c_value :: "int option"
  c_min :: "int option"
  c_max :: "int option"
  c_a :: "jsstring option"
  c_b :: "jsstring option"
  c_rank :: "int option"
  c_dims :: "jsstring list option"

section \<open>Score helpers\<close>

definition clamp :: "('a::linorder) \<Rightarrow> 'a \<Rightarrow> 'a \<Rightarrow> 'a" where
  "clamp val mn mx = max mn (min mx val)"

definition createInitialScores :: "Dimension list \<Rightarrow> ScoreMap" where
  "createInitialScores dimensions = foldl (\<lambda>acc d. assign (dim_id d) 0 acc) [] dimensions"

definition getSortedScores :: "ScoreMap \<Rightarrow> (jsstring \<times> int) list" where
  "getSortedScores scoreMap = array_sort (\<lambda>a b. snd b - snd a) scoreMap"

section \<open>Condition evaluator\<close>

definition meetsLegacy :: "ResultCondition \<Rightarrow> jsstring \<Rightarrow> ScoreMap \<Rightarrow> bool" where
  "meetsLegacy c d scoreMap =
    (let val = score_of scoreMap d in
     if c_min c \<noteq> None \<or> c_max c \<noteq> None then
       (let mn = (case c_min c of Some m \<Rightarrow> Fin m | None \<Rightarrow> NegInf);
            mx = (case c_max c of Some m \<Rightarrow> Fin m | None \<Rightarrow> PosInf)
        in jle mn (Fin val) \<and> jle (Fin val) mx)
     else
       (let op = (case c_op c of Some o' \<Rightarrow> o' | None \<Rightarrow> Gte);
            target = (case c_value c of Some t \<Rightarrow> t | None \<Rightarrow> 0)
        in case op of
             Gt \<Rightarrow> val > target
           | Lt \<Rightarrow> val < target
           | Lte \<Rightarrow> val \<le> target
           | Eq \<Rightarrow> val = target
           | Gte \<Rightarrow> val \<ge> target))"

definition meetsTyped :: "ResultCondition \<Rightarrow> ScoreMap \<Rightarrow> bool" where
  "meetsTyped c scoreMap =
    (let type = c_type c;
         dim = (if truthy (c_dim c) then the (c_dim c) else str ''calm'');
         val = (case c_value c of Some t \<Rightarrow> t | None \<Rightarrow> 0)
     in
     if type = Some (str ''min'') then score_of scoreMap dim \<ge> val
     else if type = Some (str ''max_le'') then score_of scoreMap dim \<le> val
     else if type = Some (str ''max_ge'') then score_of scoreMap dim \<ge> val
     else if type = Some (str ''diff_greater'') then
       (if \<not> truthy (c_a c) \<or> \<not> truthy (c_b c) then False
        else score_of scoreMap (the (c_a c)) > score_of scoreMap (the (c_b c)) + val)
     else if type = Some (str ''diff_abs_lte'') then
       (if \<not> truthy (c_a c) \<or> \<not> truthy (c_b c) then False
        else \<bar>score_of scoreMap (the (c_a c)) - score_of scoreMap (the (c_b c))\<bar> \<le> val)
     else if type = Some (str ''top_is'') then
       (let sorted = getSortedScores scoreMap
        in map_option fst (nth_opt sorted 0) = c_dim c)
     else if type = Some (str ''not_top_is'') then
       (let sorted = getSortedScores scoreMap
        in map_option fst (nth_opt sorted 0) \<noteq> c_dim c)
     else if type = Some (str ''rank_is'') then
       (let sorted = getSortedScores scoreMap;
            rank = max 1 (case c_rank c of Some r \<Rightarrow> (if r = 0 then 1 else r) | None \<Rightarrow> 1)
        in map_option fst (nth_opt sorted (nat (rank - 1))) = c_dim c)
     else if type = Some (str ''top_diff_gte'') then
       (let sorted = getSortedScores scoreMap;
            top = (case nth_opt sorted 0 of Some e \<Rightarrow> snd e | None \<Rightarrow> 0);
            second = (case nth_opt sorted 1 of Some e \<Rightarrow> snd e | None \<Rightarrow> 0)
        in top - second \<ge> val)
     else if type = Some (str ''top_diff_lte'') then
       (let sorted = getSortedScores scoreMap;
            top = (case nth_opt sorted 0 of Some e \<Rightarrow> snd e | None \<Rightarrow> 0);
            second = (case nth_opt sorted 1 of Some e \<Rightarrow> snd e | None \<Rightarrow> 0)
        in top - second \<le> val)
     else if type = Some (str ''total_min'') then
       (let total = foldl (\<lambda>sum v. sum + v) 0 (map snd scoreMap) in total \<ge> val)
     else if type = Some (str ''total_max'') then
       (let total = foldl (\<lambda>sum v. sum + v) 0 (map snd scoreMap) in total \<le> val)
     else if type = Some (str ''sum_min'') then
       (let dims = (case c_dims c of Some ds \<Rightarrow> ds | None \<Rightarrow> []);
            sum = foldl (\<lambda>acc k. acc + score_of scoreMap k) 0 dims
        in sum \<ge> val)
     else if type = Some (str ''sum_max'') then
       (let dims = (case c_dims c of Some ds \<Rightarrow> ds | None \<Rightarrow> []);
            sum = foldl (\<lambda>acc k. acc + score_of scoreMap k) 0 dims
        in sum \<le> val)
     else if type = Some (str ''spread_between'') then
       (let vals = map snd scoreMap;
            spread = (case vals of [] \<Rightarrow> 0 | v # vs \<Rightarrow> foldl max v vs - foldl min v vs);
            mn = (case c_min c of Some m \<Rightarrow> Fin m | None \<Rightarrow> Fin 0);
            mx = (case c_max c of Some m \<Rightarrow> Fin m | None \<Rightarrow> PosInf)
        in jle mn (Fin spread) \<and> jle (Fin spread) mx)
     else True)"

definition meetsCondition :: "ResultCondition option \<Rightarrow> ScoreMap \<Rightarrow> bool" where
  "meetsCondition cond scoreMap =
    (case cond of
       None \<Rightarrow> True
     | Some c \<Rightarrow>
         if truthy (c_dim c) \<and> \<not> truthy (c_type c)
         then meetsLegacy c (the (c_dim c)) scoreMap
         else meetsTyped c scoreMap)"

text \<open>
  \<open>meetsLegacy\<close> and \<open>meetsTyped\<close> are the two halves of the body of \<open>meetsCondition\<close>: the
  legacy dialect (a \<open>dim\<close> and no \<open>type\<close>) and the \<open>switch\<close> on \<open>type\<close>. The case labels
  of that \<open>switch\<close>:
\<close>

definition recognized_types :: "jsstring list" where
  "recognized_types = map str
     [''min'', ''max_le'', ''max_ge'', ''diff_greater'', ''diff_abs_lte'', ''top_is'',
      ''not_top_is'', ''rank_is'', ''top_diff_gte'', ''top_diff_lte'', ''total_min'',
      ''total_max'', ''sum_min'', ''sum_max'', ''spread_between'']"

section \<open>Result resolver\<close>

record ResultPalette =
  pal_primary :: "jsstring option"
  pal_secondary :: "jsstring option"
  pal_accent :: "jsstring option"

record TastingNotes =
  tn_top :: "jsstring option"
  tn_mid :: "jsstring option"
  tn_base :: "jsstring option"

text \<open>
  The declared fields of \<open>ResultProfile\<close>; further keys admitted by its index signature
  are display data that no function of the engine reads.
\<close>

record ResultProfile =
  rp_id :: jsstring
  rp_title :: jsstring
  rp_summary :: jsstring
  rp_lore :: "jsstring option"
  rp_image :: "jsstring option"
  rp_palette :: "ResultPalette option"
  rp_tasting_notes :: "TastingNotes option"
  rp_side_effect :: "jsstring option"
  rp_signature_ritual :: "jsstring option"
  rp_signals :: "jsstring list option"
  rp_priority :: "int jsnum option"
  rp_conditions :: "ResultCondition list option"
  rp_extra :: "jsstring option"

definition resultMatchesConditions :: "ResultProfile \<Rightarrow> ScoreMap \<Rightarrow> bool" where
  "resultMatchesConditions result scoreMap =
    (let conditions = (case rp_conditions result of Some cs \<Rightarrow> cs | None \<Rightarrow> [])
     in if conditions = [] then True
        else list_all (\<lambda>cond. meetsCondition (Some cond) scoreMap) conditions)"

text \<open>
  \<open>results.indexOf(best)\<close> compares objects by identity. The elements of \<open>results\<close> are
  distinct objects (each is created by the JSON parser), so the identity of a result is
  its position in \<open>results\<close>: the model keeps that position beside every candidate, and
  \<open>indexOf\<close> reads it back. \<open>pick\<close> is the callback of \<open>candidates.forEach\<close>; its
  \<open>index\<close> is the index in \<open>candidates\<close>, as \<open>forEach\<close> passes it.
\<close>

type_synonym candidate = "nat \<times> ResultProfile"

fun pick :: "candidate option \<times> int jsnum \<Rightarrow> nat \<times> candidate \<Rightarrow> candidate option \<times> int jsnum" where
  "pick (best, bestPriority) (index, result) =
    (let priority = (case rp_priority (snd result) of
                       Some (Fin p) \<Rightarrow> p
                     | _ \<Rightarrow> 0)
     in
     if jgt (Fin priority) bestPriority then (Some result, Fin priority)
     else if Fin priority = bestPriority \<and> best \<noteq> None then
       (let bestIndex = fst (the best)
        in if index < bestIndex then (Some result, bestPriority) else (best, bestPriority))
     else if Fin priority = bestPriority \<and> best = None then (Some result, bestPriority)
     else (best, bestPriority))"

definition resolveConditionalResult :: "ResultProfile list \<Rightarrow> ScoreMap \<Rightarrow> ResultProfile option" where
  "resolveConditionalResult results scoreMap =
    (let candidates = filter (\<lambda>result. resultMatchesConditions (snd result) scoreMap)
                             (enumerate 0 results)
     in if candidates = [] then None
        else map_option snd (fst (foldl pick (None, NegInf) (enumerate 0 candidates))))"

definition placeholder :: ResultProfile where
  "placeholder =
    \<lparr>rp_id = str ''fallback'', rp_title = str ''Your Potion'', rp_summary = [],
     rp_lore = Some [], rp_image = None, rp_palette = None, rp_tasting_notes = None,
     rp_side_effect = None, rp_signature_ritual = None, rp_signals = Some [],
     rp_priority = None, rp_conditions = None, rp_extra = None\<rparr>"

definition fallbackMap :: "(jsstring \<times> jsstring) list" where
  "fallbackMap =
    [(str ''calm'', str ''potion_top_calm''),
     (str ''courage'', str ''potion_top_courage''),
     (str ''focus'', str ''potion_top_focus''),
     (str ''charm'', str ''potion_top_charm''),
     (str ''tempo'', str ''potion_top_tempo''),
     (str ''insight'', str ''potion_top_insight''),
     (str ''resolve'', str ''potion_top_resolve''),
     (str ''wonder'', str ''potion_top_wonder'')]"

text \<open>The local \<open>dominant\<close> of \<open>computeResult\<close>: the ids by absolute value, largest first.\<close>

definition dominantOrder :: "ScoreMap \<Rightarrow> jsstring list" where
  "dominantOrder scoreMap = map fst (array_sort (\<lambda>a b. \<bar>snd b\<bar> - \<bar>snd a\<bar>) scoreMap)"

text \<open>The local \<open>defaultResult\<close> of \<open>computeResult\<close>.\<close>

definition defaultResult :: "ResultProfile list \<Rightarrow> ResultProfile" where
  "defaultResult results =
    (case find (\<lambda>result. rp_id result = str ''potion_calm'') results of
       Some r \<Rightarrow> r
     | None \<Rightarrow> (case nth_opt results 0 of Some r \<Rightarrow> r | None \<Rightarrow> placeholder))"

definition computeResult :: "ResultProfile list \<Rightarrow> ScoreMap \<Rightarrow> ResultProfile" where
  "computeResult results scoreMap =
    (let scoreValues = map snd scoreMap;
         total = foldl (\<lambda>sum v. sum + \<bar>v\<bar>) 0 scoreValues;
         signal = (if total > 18 then str ''High signal''
                   else if total > 10 then str ''Moderate signal''
                   else str ''Soft signal'')
     in
     case resolveConditionalResult results scoreMap of
       Some conditional \<Rightarrow>
         conditional
           \<lparr>rp_summary := (if rp_summary conditional \<noteq> [] then rp_summary conditional else []),
            rp_extra := Some (if truthy (rp_extra conditional) then the (rp_extra conditional) else [])\<rparr>
     | None \<Rightarrow>
         (let dominant = dominantOrder scoreMap;
              fallback = defaultResult results
          in
          case dominant of
            [] \<Rightarrow> fallback\<lparr>rp_extra := Some signal\<rparr>
          | topId # _ \<Rightarrow>
              (let secondary = nth_opt dominant 1;
                   mappedId = map_of fallbackMap topId;
                   resolved =
                     (case (if truthy mappedId
                            then find (\<lambda>result. rp_id result = the mappedId) results
                            else None) of
                        Some r \<Rightarrow> r
                      | None \<Rightarrow> fallback)
               in resolved
                    \<lparr>rp_summary := (if rp_summary resolved \<noteq> [] then rp_summary resolved else []),
                     rp_extra := Some (str ''Dominant: '' @ topId @
                        (if truthy secondary then str '', Secondary: '' @ the secondary else []))\<rparr>)))"

section \<open>Score accumulator\<close>

record QuestionOption =
  opt_text :: jsstring
  opt_image :: "jsstring option"
  opt_weights :: "(jsstring \<times> int jsnum) list option"

text \<open>
  The part of \<open>handleAnswer\<close> that computes \<open>nextScores\<close> from the current scores and the
  chosen option; the rest of that callback drives the view. \<open>accumulate\<close> is the callback
  of \<open>Object.entries(option.weights || {}).forEach\<close>: \<open>fst w\<close> is \<open>dimId\<close>, \<open>snd w\<close> is
  \<open>delta\<close>.
\<close>

definition accumulate :: "ScoreMap \<Rightarrow> jsstring \<times> int jsnum \<Rightarrow> ScoreMap" where
  "accumulate next w =
    (let numericDelta = snd w
     in assign (fst w)
          (clamp (score_of next (fst w) + (case numericDelta of Fin d \<Rightarrow> d | _ \<Rightarrow> 0)) (-20) 20)
          next)"

definition nextScores :: "ScoreMap \<Rightarrow> QuestionOption \<Rightarrow> ScoreMap" where
  "nextScores scores option =
    foldl accumulate scores (case opt_weights option of Some w \<Rightarrow> w | None \<Rightarrow> [])"

section \<open>Score normalisation\<close>







section \<open>State codec\<close>

text \<open>
  \<open>btoa\<close>, \<open>atob\<close>, \<open>JSON.stringify\<close> and \<open>JSON.parse\<close> belong to the platform, not to the
  repository. They are modelled after their standards: \<open>btoa\<close> and \<open>atob\<close> after the HTML
  standard (base64 of RFC 4648, the forgiving decoder), the JSON functions after
  ECMAScript and ECMA-404.
\<close>

subsection \<open>btoa and atob\<close>

text \<open>The 64 characters \<open>A-Z a-z 0-9 + /\<close>, and their positions.\<close>

definition b64_char :: "nat \<Rightarrow> nat" where
  "b64_char n =
    (if n < 26 then 65 + n
     else if n < 52 then 71 + n
     else if n < 62 then n - 4
     else if n = 62 then 43
     else 47)"

definition b64_index :: "nat \<Rightarrow> nat option" where
  "b64_index c =
    (if 65 \<le> c \<and> c \<le> 90 then Some (c - 65)
     else if 97 \<le> c \<and> c \<le> 122 then Some (c - 71)
     else if 48 \<le> c \<and> c \<le> 57 then Some (c + 4)
     else if c = 43 then Some 62
     else if c = 47 then Some 63
     else None)"

text \<open>
  Three bytes become four characters; one or two remaining bytes are padded with \<open>=\<close>
  (code 61).
\<close>

fun b64_encode :: "nat list \<Rightarrow> jsstring" where
  "b64_encode [] = []"
| "b64_encode [a] = [b64_char (a div 4), b64_char (a mod 4 * 16), 61, 61]"
| "b64_encode [a, b] =
     [b64_char (a div 4), b64_char (a mod 4 * 16 + b div 16), b64_char (b mod 16 * 4), 61]"
| "b64_encode (a # b # c # bytes) =
     [b64_char (a div 4), b64_char (a mod 4 * 16 + b div 16),
      b64_char (b mod 16 * 4 + c div 64), b64_char (c mod 64)] @ b64_encode bytes"

text \<open>\<open>btoa\<close> throws when its argument has a code unit above \<open>0xFF\<close>.\<close>

definition btoa :: "jsstring \<Rightarrow> error + jsstring" where
  "btoa text =
    (if list_ex (\<lambda>c. c > 255) text then Inl InvalidCharacterError else Inr (b64_encode text))"

text \<open>
  \<open>atob\<close> is the forgiving decoder: it drops ASCII whitespace; when the length is a
  multiple of 4 it drops one or two closing \<open>=\<close>; it fails on a length of 1 modulo 4 and
  on any character outside the alphabet; a final group of two or three characters gives
  one or two bytes.
\<close>

fun b64_decode :: "nat list \<Rightarrow> jsstring" where
  "b64_decode (a # b # c # d # sextets) =
     [a * 4 + b div 16, b mod 16 * 16 + c div 4, c mod 4 * 64 + d] @ b64_decode sextets"
| "b64_decode [a, b, c] = [a * 4 + b div 16, b mod 16 * 16 + c div 4]"
| "b64_decode [a, b] = [a * 4 + b div 16]"
| "b64_decode _ = []"

definition ascii_whitespace :: "nat \<Rightarrow> bool" where
  "ascii_whitespace c = (c = 9 \<or> c = 10 \<or> c = 12 \<or> c = 13 \<or> c = 32)"

definition strip_padding :: "jsstring \<Rightarrow> jsstring" where
  "strip_padding s =
    (if length s mod 4 = 0 then
       (case rev s of
          a # b # r \<Rightarrow> if a = 61 then (if b = 61 then rev r else rev (b # r)) else s
        | _ \<Rightarrow> s)
     else s)"

definition atob :: "jsstring \<Rightarrow> error + jsstring" where
  "atob encoded =
    (let s = strip_padding (filter (\<lambda>c. \<not> ascii_whitespace c) encoded)
     in if length s mod 4 = 1 then Inl InvalidCharacterError
        else if list_ex (\<lambda>c. b64_index c = None) s then Inl InvalidCharacterError
        else Inr (b64_decode (map (\<lambda>c. the (b64_index c)) s)))"

subsection \<open>base64url\<close>

text \<open>
  \<open>toBase64Url\<close> is \<open>btoa\<close> followed by three replacements: every \<open>+\<close> by \<open>-\<close>, every
  \<open>/\<close> by \<open>_\<close>, and the closing run of \<open>=\<close> by nothing. \<open>fromBase64Url\<close> undoes the
  first two and pads with \<open>=\<close> to a multiple of 4 before \<open>atob\<close>. The codes: \<open>+\<close> 43,
  \<open>-\<close> 45, \<open>/\<close> 47, \<open>=\<close> 61, \<open>_\<close> 95.
\<close>

definition replace_all :: "nat \<Rightarrow> nat \<Rightarrow> jsstring \<Rightarrow> jsstring" where
  "replace_all a b s = map (\<lambda>c. if c = a then b else c) s"

definition toBase64Url :: "jsstring \<Rightarrow> error + jsstring" where
  "toBase64Url text =
    (case btoa text of
       Inl e \<Rightarrow> Inl e
     | Inr b \<Rightarrow> Inr (rev (dropWhile (\<lambda>c. c = 61) (rev (replace_all 47 95 (replace_all 43 45 b))))))"

definition fromBase64Url :: "jsstring \<Rightarrow> error + jsstring" where
  "fromBase64Url encoded =
    (let padded = replace_all 95 47 (replace_all 45 43 encoded);
         padLen = (4 - length padded mod 4) mod 4
     in atob (padded @ replicate padLen 61))"

subsection \<open>JSON.stringify of a payload\<close>

text \<open>
  \<open>SharedStateV1 = {v: 1, resultId: string, scores: ScoreMap, answers: number[]}\<close>. The
  type of \<open>v\<close> is the literal 1, so the record has no field for it. The scores of a
  payload come from \<open>normalizeScoresForDimensions\<close> and the answers are option indices:
  both are integers, which \<open>JSON.stringify\<close> prints in decimal.
\<close>

record SharedStateV1 =
  ss_resultId :: jsstring
  ss_scores :: ScoreMap
  ss_answers :: "int list"

text \<open>
  \<open>QuoteJSONString\<close>: the quote (34) and the backslash (92) are escaped by a backslash;
  the control characters 8, 9, 10, 12, 13 are written as backslash and \<open>b\<close>, \<open>t\<close>, \<open>n\<close>,
  \<open>f\<close>, \<open>r\<close>, the other ones below 32 and a surrogate without its partner as backslash,
  \<open>u\<close> and four lower-case hexadecimal digits; every other code unit is copied.
\<close>

definition hex_digit :: "nat \<Rightarrow> nat" where
  "hex_digit n = (if n < 10 then 48 + n else 87 + n)"

definition unicode_escape :: "nat \<Rightarrow> jsstring" where
  "unicode_escape c =
    [92, 117, hex_digit (c div 4096), hex_digit (c div 256 mod 16), hex_digit (c div 16 mod 16),
     hex_digit (c mod 16)]"

definition lead_surrogate :: "nat \<Rightarrow> bool" where
  "lead_surrogate c = (55296 \<le> c \<and> c \<le> 56319)"

definition trail_surrogate :: "nat \<Rightarrow> bool" where
  "trail_surrogate c = (56320 \<le> c \<and> c \<le> 57343)"

fun quote_units :: "jsstring \<Rightarrow> jsstring" where
  "quote_units [] = []"
| "quote_units (c # cs) =
    (if c = 8 then [92, 98] @ quote_units cs
     else if c = 9 then [92, 116] @ quote_units cs
     else if c = 10 then [92, 110] @ quote_units cs
     else if c = 12 then [92, 102] @ quote_units cs
     else if c = 13 then [92, 114] @ quote_units cs
     else if c = 34 then [92, 34] @ quote_units cs
     else if c = 92 then [92, 92] @ quote_units cs
     else if c < 32 then unicode_escape c @ quote_units cs
     else if lead_surrogate c then
       (case cs of
          d # ds \<Rightarrow> if trail_surrogate d then c # d # quote_units ds
                    else unicode_escape c @ quote_units cs
        | [] \<Rightarrow> unicode_escape c)
     else if trail_surrogate c then unicode_escape c @ quote_units cs
     else c # quote_units cs)"

definition QuoteJSONString :: "jsstring \<Rightarrow> jsstring" where
  "QuoteJSONString s = [34] @ quote_units s @ [34]"

function digits :: "nat \<Rightarrow> jsstring" where
  "digits n = (if n < 10 then [48 + n] else digits (n div 10) @ [48 + n mod 10])"
  by pat_completeness auto
termination
  by (relation "measure (\<lambda>n. n)") auto

declare digits.simps [simp del]

definition Number_toString :: "int \<Rightarrow> jsstring" where
  "Number_toString i = (if i < 0 then 45 # digits (nat (- i)) else digits (nat i))"

fun join :: "jsstring \<Rightarrow> jsstring list \<Rightarrow> jsstring" where
  "join sep [] = []"
| "join sep [x] = x"
| "join sep (x # y # ys) = x @ sep @ join sep (y # ys)"

text \<open>
  \<open>JSON.stringify\<close> of a payload: its four properties in the order of the object literals
  in \<open>updateUrlState\<close> and \<open>buildResultShareUrl\<close>, without white space. \<open>member_text\<close> is
  one property of the scores object: the quoted key, a colon (58), the number.
\<close>

definition member_text :: "jsstring \<times> int \<Rightarrow> jsstring" where
  "member_text e = QuoteJSONString (fst e) @ 58 # Number_toString (snd e)"

definition JSON_stringify :: "SharedStateV1 \<Rightarrow> jsstring" where
  "JSON_stringify payload =
    str ''{\"v\":1,\"resultId\":'' @ QuoteJSONString (ss_resultId payload) @
    str '',\"scores\":{'' @
    join [44] (map member_text (ss_scores payload)) @
    str ''},\"answers\":['' @
    join [44] (map Number_toString (ss_answers payload)) @
    str '']}''"

definition encodeShareState :: "SharedStateV1 \<Rightarrow> error + jsstring" where
  "encodeShareState payload = toBase64Url (JSON_stringify payload)"

subsection \<open>JSON.parse\<close>

text \<open>
  The values \<open>JSON.parse\<close> returns. An object lists its keys once each, in the order of
  their first occurrence, with the value of the last occurrence. A number is the exact
  rational its literal denotes (the rounding to a double is not modelled).
\<close>

datatype json =
    JNull | JBool bool | JNum rat | JStr jsstring | JArr "json list" | JObj "(jsstring \<times> json) list"

definition json_whitespace :: "nat \<Rightarrow> bool" where
  "json_whitespace c = (c = 9 \<or> c = 10 \<or> c = 13 \<or> c = 32)"

definition skip_ws :: "jsstring \<Rightarrow> jsstring" where
  "skip_ws s = dropWhile json_whitespace s"

definition is_digit :: "nat \<Rightarrow> bool" where
  "is_digit c = (48 \<le> c \<and> c \<le> 57)"

definition hex_value :: "nat \<Rightarrow> nat option" where
  "hex_value c =
    (if 48 \<le> c \<and> c \<le> 57 then Some (c - 48)
     else if 97 \<le> c \<and> c \<le> 102 then Some (c - 87)
     else if 65 \<le> c \<and> c \<le> 70 then Some (c - 55)
     else None)"

definition hex4 :: "nat \<Rightarrow> nat \<Rightarrow> nat \<Rightarrow> nat \<Rightarrow> nat option" where
  "hex4 a b c d =
    (case (hex_value a, hex_value b, hex_value c, hex_value d) of
       (Some w, Some x, Some y, Some z) \<Rightarrow> Some (w * 4096 + x * 256 + y * 16 + z)
     | _ \<Rightarrow> None)"

text \<open>The characters of a string literal after its opening quote, up to the closing one.\<close>

fun scan_string :: "jsstring \<Rightarrow> jsstring \<Rightarrow> (jsstring \<times> jsstring) option" where
  "scan_string [] acc = None"
| "scan_string (c # cs) acc =
    (if c = 34 then Some (acc, cs)
     else if c = 92 then
       (case cs of
          [] \<Rightarrow> None
        | e # es \<Rightarrow>
            if e = 34 \<or> e = 92 \<or> e = 47 then scan_string es (acc @ [e])
            else if e = 98 then scan_string es (acc @ [8])
            else if e = 102 then scan_string es (acc @ [12])
            else if e = 110 then scan_string es (acc @ [10])
            else if e = 114 then scan_string es (acc @ [13])
            else if e = 116 then scan_string es (acc @ [9])
            else if e = 117 then
              (case es of
                 h1 # h2 # h3 # h4 # rest \<Rightarrow>
                   (case hex4 h1 h2 h3 h4 of
                      Some u \<Rightarrow> scan_string rest (acc @ [u])
                    | None \<Rightarrow> None)
               | _ \<Rightarrow> None)
            else None)
     else if c < 32 then None
     else scan_string cs (acc @ [c]))"

definition digits_value :: "jsstring \<Rightarrow> nat" where
  "digits_value ds = foldl (\<lambda>n d. 10 * n + (d - 48)) 0 ds"

text \<open>
  A number literal: \<open>-? (0 | [1-9][0-9]*) (. [0-9]+)? ([eE] [+-]? [0-9]+)?\<close>, read as the
  exact rational it denotes.
\<close>

definition scan_number :: "jsstring \<Rightarrow> (json \<times> jsstring) option" where
  "scan_number s =
    (let neg = (s \<noteq> [] \<and> hd s = 45);
         s1 = (if neg then tl s else s);
         ip = takeWhile is_digit s1;
         s2 = dropWhile is_digit s1
     in if ip = [] \<or> (length ip > 1 \<and> hd ip = 48) then None
        else
          (let has_frac = (s2 \<noteq> [] \<and> hd s2 = 46);
               fp = (if has_frac then takeWhile is_digit (tl s2) else []);
               s3 = (if has_frac then dropWhile is_digit (tl s2) else s2)
           in if has_frac \<and> fp = [] then None
              else
                (let has_exp = (s3 \<noteq> [] \<and> (hd s3 = 101 \<or> hd s3 = 69));
                     e1 = (if has_exp then tl s3 else s3);
                     eneg = (has_exp \<and> e1 \<noteq> [] \<and> hd e1 = 45);
                     e2 = (if has_exp \<and> e1 \<noteq> [] \<and> (hd e1 = 43 \<or> hd e1 = 45) then tl e1 else e1);
                     ep = (if has_exp then takeWhile is_digit e2 else []);
                     s4 = (if has_exp then dropWhile is_digit e2 else s3)
                 in if has_exp \<and> ep = [] then None
                    else
                      (let mant = of_nat (digits_value ip)
                                  + of_nat (digits_value fp) / 10 ^ length fp;
                           scaled = (if eneg then mant / 10 ^ digits_value ep
                                     else mant * 10 ^ digits_value ep)
                       in Some (JNum (if neg then - scaled else scaled), s4)))))"

definition scan_literal :: "jsstring \<Rightarrow> (json \<times> jsstring) option" where
  "scan_literal s =
    (if take 4 s = str ''true'' then Some (JBool True, drop 4 s)
     else if take 5 s = str ''false'' then Some (JBool False, drop 5 s)
     else if take 4 s = str ''null'' then Some (JNull, drop 4 s)
     else scan_number s)"

text \<open>
  A value, the elements of an array after its bracket, the members of an object after its
  brace. Each returns the value read and the rest of the text. The tests
  \<open>length r < length s\<close> always succeed (a value is at least one character); they make
  the recursion visibly one on shorter texts.
\<close>

lemma length_skip_ws: "length (skip_ws s) \<le> length s"
  by (simp add: skip_ws_def length_dropWhile_le)

lemma skip_ws_Cons_length: "skip_ws s = c # cs \<Longrightarrow> length cs < length s"
  using length_skip_ws [of s] by simp

function parse_value :: "jsstring \<Rightarrow> (json \<times> jsstring) option"
  and parse_elements :: "jsstring \<Rightarrow> json list \<Rightarrow> (json \<times> jsstring) option"
  and parse_members :: "jsstring \<Rightarrow> (jsstring \<times> json) list \<Rightarrow> (json \<times> jsstring) option"
where
  "parse_value s =
    (case skip_ws s of
       [] \<Rightarrow> None
     | c # cs \<Rightarrow>
         if c = 91 then
           (case skip_ws cs of
              [] \<Rightarrow> None
            | d # ds \<Rightarrow> if d = 93 then Some (JArr [], ds) else parse_elements cs [])
         else if c = 123 then
           (case skip_ws cs of
              [] \<Rightarrow> None
            | d # ds \<Rightarrow> if d = 125 then Some (JObj [], ds) else parse_members cs [])
         else if c = 34 then
           (case scan_string cs [] of
              Some (x, rest) \<Rightarrow> Some (JStr x, rest)
            | None \<Rightarrow> None)
         else scan_literal (c # cs))"
| "parse_elements s acc =
    (case parse_value s of
       None \<Rightarrow> None
     | Some (v, r) \<Rightarrow>
         if length r < length s then
           (case skip_ws r of
              [] \<Rightarrow> None
            | d # ds \<Rightarrow>
                if d = 44 then parse_elements ds (acc @ [v])
                else if d = 93 then Some (JArr (acc @ [v]), ds)
                else None)
         else None)"
| "parse_members s acc =
    (case skip_ws s of
       [] \<Rightarrow> None
     | q # cs \<Rightarrow>
         if q = 34 then
           (case scan_string cs [] of
              None \<Rightarrow> None
            | Some (k, r) \<Rightarrow>
                (case skip_ws r of
                   [] \<Rightarrow> None
                 | colon # r1 \<Rightarrow>
                     if colon = 58 \<and> length r1 < length s then
                       (case parse_value r1 of
                          None \<Rightarrow> None
                        | Some (v, r2) \<Rightarrow>
                            if length r2 < length r1 then
                              (case skip_ws r2 of
                                 [] \<Rightarrow> None
                               | d # ds \<Rightarrow>
                                   if d = 44 then parse_members ds (assign k v acc)
                                   else if d = 125 then Some (JObj (assign k v acc), ds)
                                   else None)
                            else None)
                     else None))
         else None)"
  by pat_completeness auto

termination
  by (relation "measure (\<lambda>x. case x of
                    Inl s \<Rightarrow> 2 * length s
                  | Inr (Inl (s, acc)) \<Rightarrow> 2 * length s + 1
                  | Inr (Inr (s, acc)) \<Rightarrow> 2 * length s + 1)")
     (auto dest: skip_ws_Cons_length)

declare parse_value.simps [simp del] parse_elements.simps [simp del] parse_members.simps [simp del]

text \<open>\<open>JSON.parse\<close>: one value, with white space around it and nothing else.\<close>

definition JSON_parse :: "jsstring \<Rightarrow> error + json" where
  "JSON_parse text =
    (case parse_value text of
       None \<Rightarrow> Inl SyntaxError
     | Some (v, rest) \<Rightarrow> if skip_ws rest = [] then Inr v else Inl SyntaxError)"

subsection \<open>decodeShareState\<close>

text \<open>
  \<open>parsed?.v\<close> and \<open>parsed.resultId\<close>: an own property of an object, \<open>undefined\<close> (here
  \<open>None\<close>) on \<open>null\<close> and on every other value, none of which has a property of these
  two names. \<open>is_string x\<close> is \<open>typeof x === "string"\<close>.
\<close>

fun property :: "json \<Rightarrow> jsstring \<Rightarrow> json option" where
  "property (JObj kvs) k = map_of kvs k"
| "property _ k = None"

fun is_string :: "json option \<Rightarrow> bool" where
  "is_string (Some (JStr s)) = True"
| "is_string _ = False"

text \<open>
  \<open>decodeShareState\<close>: \<open>null\<close> for a falsy argument; inside the \<open>try\<close>, the base64url and
  the JSON decoding, whose exceptions the \<open>catch\<close> turns into \<open>null\<close>; then the two tests
  on \<open>v\<close> and \<open>resultId\<close>.
\<close>

definition decodeShareState :: "jsstring option \<Rightarrow> json option" where
  "decodeShareState rawValue =
    (if \<not> truthy rawValue then None
     else
       (case fromBase64Url (the rawValue) of
          Inl e \<Rightarrow> None
        | Inr text \<Rightarrow>
            (case JSON_parse text of
               Inl e \<Rightarrow> None
             | Inr parsed \<Rightarrow>
                 if property parsed (str ''v'') \<noteq> Some (JNum 1)
                    \<or> \<not> is_string (property parsed (str ''resultId''))
                 then None
                 else Some parsed)))"

section \<open>Vocabulary of the statements\<close>

text \<open>
  The fallback choice in the words of the specification (section 4.3, step 4): the first
  result carrying the id that the static map gives for the dominant dimension; failing
  that the first result with the sentinel id \<open>potion_calm\<close>; failing that the first entry
  of \<open>results\<close>; and the synthetic placeholder when \<open>results\<close> is empty.
\<close>

definition chosenFallback :: "ResultProfile list \<Rightarrow> jsstring \<Rightarrow> ResultProfile" where
  "chosenFallback results topId =
    (let mapped = filter (\<lambda>r. Some (rp_id r) = map_of fallbackMap topId) results;
         sentinel = filter (\<lambda>r. rp_id r = str ''potion_calm'') results
     in if mapped \<noteq> [] then hd mapped
        else if sentinel \<noteq> [] then hd sentinel
        else if results \<noteq> [] then hd results
        else placeholder)"

text \<open>A payload \<open>{v: 1, resultId, scores, answers}\<close> as the value \<open>JSON.parse\<close> would return.\<close>

definition payload_value :: "SharedStateV1 \<Rightarrow> json" where
  "payload_value payload =
    JObj [(str ''v'', JNum 1),
          (str ''resultId'', JStr (ss_resultId payload)),
          (str ''scores'', JObj (map (\<lambda>e. (fst e, JNum (of_int (snd e)))) (ss_scores payload))),
          (str ''answers'', JArr (map (\<lambda>a. JNum (of_int a)) (ss_answers payload)))]"


section \<open>Example data\<close>

text \<open>A result and a condition with every optional field absent, to build examples from.\<close>

definition blank_result :: ResultProfile where
  "blank_result =
    \<lparr>rp_id = [], rp_title = [], rp_summary = [],
     rp_lore = None, rp_image = None, rp_palette = None, rp_tasting_notes = None,
     rp_side_effect = None, rp_signature_ritual = None, rp_signals = None,
     rp_priority = None, rp_conditions = None, rp_extra = None\<rparr>"

definition blank_condition :: ResultCondition where
  "blank_condition =
    \<lparr>c_type = None, c_dim = None, c_op = None, c_value = None, c_min = None, c_max = None,
     c_a = None, c_b = None, c_rank = None, c_dims = None\<rparr>"

text \<open>\<open>{ "type": "min", "dim": "calm", "value": 10 }\<close>\<close>

definition calm_at_least_10 :: ResultCondition where
  "calm_at_least_10 =
    blank_condition\<lparr>c_type := Some (str ''min''), c_dim := Some (str ''calm''),
                    c_value := Some 10\<rparr>"

text \<open>
  Four results: \<open>x1\<close> and \<open>x2\<close> require \<open>calm >= 10\<close>; \<open>a\<close> and \<open>b\<close> have no
  condition and the same priority 3.
\<close>

definition tie_results :: "ResultProfile list" where
  "tie_results =
    [blank_result\<lparr>rp_id := str ''x1'', rp_conditions := Some [calm_at_least_10]\<rparr>,
     blank_result\<lparr>rp_id := str ''x2'', rp_conditions := Some [calm_at_least_10]\<rparr>,
     blank_result\<lparr>rp_id := str ''a'', rp_priority := Some (Fin 3)\<rparr>,
     blank_result\<lparr>rp_id := str ''b'', rp_priority := Some (Fin 3)\<rparr>]"

text \<open>Two results that both require \<open>calm >= 10\<close>.\<close>

definition fallback_results :: "ResultProfile list" where
  "fallback_results =
    [blank_result\<lparr>rp_id := str ''potion_calm'', rp_conditions := Some [calm_at_least_10]\<rparr>,
     blank_result\<lparr>rp_id := str ''potion_top_focus'', rp_conditions := Some [calm_at_least_10]\<rparr>]"




section \<open>Auxiliary definitions for the proofs\<close>

text \<open>The 6-bit groups of a byte sequence, and the number of \<open>=\<close> that pad its encoding.\<close>

fun sextets :: "nat list \<Rightarrow> nat list" where
  "sextets [] = []"
| "sextets [a] = [a div 4, a mod 4 * 16]"
| "sextets [a, b] = [a div 4, a mod 4 * 16 + b div 16, b mod 16 * 4]"
| "sextets (a # b # c # bytes) =
     [a div 4, a mod 4 * 16 + b div 16, b mod 16 * 4 + c div 64, c mod 64] @ sextets bytes"

definition pad_count :: "nat list \<Rightarrow> nat" where
  "pad_count t = (3 - length t mod 3) mod 3"

text \<open>An encoded text after the two replacements of \<open>toBase64Url\<close>.\<close>

definition url_chars :: "jsstring \<Rightarrow> jsstring" where
  "url_chars b = replace_all 47 95 (replace_all 43 45 b)"

text \<open>The characters that may follow a value inside an array or an object: \<open>, ] }\<close>.\<close>

definition value_end :: "nat \<Rightarrow> bool" where
  "value_end r = (r = 44 \<or> r = 93 \<or> r = 125)"

section \<open>Properties of the stable sort\<close>

lemma set_insert_cmp: "set (insert_cmp cmp x ys) = insert x (set ys)"
  by (induction ys) auto

lemma set_array_sort: "set (array_sort cmp xs) = set xs"
  unfolding array_sort_def by (induction xs) (auto simp: set_insert_cmp)

lemma length_insert_cmp: "length (insert_cmp cmp x ys) = Suc (length ys)"
  by (induction ys) auto

lemma length_array_sort: "length (array_sort cmp xs) = length xs"
  unfolding array_sort_def by (induction xs) (auto simp: length_insert_cmp)

lemma sorted_insert_desc:
  "sorted_wrt (\<lambda>a b. f a \<ge> f b) ys \<Longrightarrow>
   sorted_wrt (\<lambda>a b. f a \<ge> f b) (insert_cmp (\<lambda>a b. f b - f a) x ys)"
  by (induction ys) (auto simp: set_insert_cmp)

lemma sorted_array_sort_desc:
  "sorted_wrt (\<lambda>a b. f a \<ge> f b) (array_sort (\<lambda>a b. f b - f a) xs)"
  unfolding array_sort_def
  by (induction xs) (auto intro: sorted_insert_desc)

lemma filter_insert_desc:
  "sorted_wrt (\<lambda>a b. f a \<ge> f b) ys \<Longrightarrow>
   filter (\<lambda>e. f e = v) (insert_cmp (\<lambda>a b. f b - f a) x ys) =
     (if f x = v then x # filter (\<lambda>e. f e = v) ys else filter (\<lambda>e. f e = v) ys)"
proof (induction ys)
  case Nil
  then show ?case by simp
next
  case (Cons y ys)
  show ?case
  proof (cases "f y - f x \<le> 0")
    case True
    then show ?thesis by simp
  next
    case False
    then have "f x < f y" by simp
    moreover have "filter (\<lambda>e. f e = v) (insert_cmp (\<lambda>a b. f b - f a) x ys) =
     (if f x = v then x # filter (\<lambda>e. f e = v) ys else filter (\<lambda>e. f e = v) ys)"
      using Cons by simp
    ultimately show ?thesis using False by auto
  qed
qed

lemma stable_array_sort_desc:
  "filter (\<lambda>e. f e = v) (array_sort (\<lambda>a b. f b - f a) xs) = filter (\<lambda>e. f e = v) xs"
proof (induction xs)
  case Nil
  then show ?case by (simp add: array_sort_def)
next
  case (Cons x xs)
  have s: "sorted_wrt (\<lambda>a b. f a \<ge> f b) (foldr (insert_cmp (\<lambda>a b. f b - f a)) xs [])"
    using sorted_array_sort_desc [of f xs] by (simp add: array_sort_def)
  show ?case
    using Cons filter_insert_desc [OF s, of v x]
    by (simp add: array_sort_def)
qed

lemma filter_first:
  "i < length xs \<Longrightarrow> P (xs ! i) \<Longrightarrow> \<forall>k<i. \<not> P (xs ! k) \<Longrightarrow> \<exists>rest. filter P xs = xs ! i # rest"
proof (induction xs arbitrary: i)
  case Nil
  then show ?case by simp
next
  case (Cons x xs)
  show ?case
  proof (cases i)
    case 0
    with Cons.prems show ?thesis by simp
  next
    case (Suc n)
    with Cons.prems have "\<not> P x" by auto
    moreover have "\<forall>k<n. \<not> P (xs ! k)"
    proof (intro allI impI)
      fix k assume "k < n"
      then have "Suc k < i" using Suc by simp
      then have "\<not> P ((x # xs) ! Suc k)" using Cons.prems(3) by blast
      then show "\<not> P (xs ! k)" by simp
    qed
    then have "\<exists>rest. filter P xs = xs ! n # rest"
      using Cons.IH [of n] Cons.prems Suc by simp
    ultimately show ?thesis using Suc by simp
  qed
qed

lemma array_sort_desc_head:
  fixes f :: "'a \<Rightarrow> int"
  assumes i: "i < length xs"
    and mx: "\<forall>e\<in>set xs. f e \<le> f (xs ! i)"
    and first: "\<forall>k<i. f (xs ! k) \<noteq> f (xs ! i)"
  shows "\<exists>rest. array_sort (\<lambda>a b. f b - f a) xs = xs ! i # rest"
proof -
  let ?m = "f (xs ! i)"
  let ?s = "array_sort (\<lambda>a b. f b - f a) xs"
  have len: "length ?s = length xs" by (simp add: length_array_sort)
  then obtain h t where ht: "?s = h # t" using i by (cases ?s) auto
  have "xs ! i \<in> set ?s" using i by (simp add: set_array_sort)
  then have "f h \<ge> ?m" using sorted_array_sort_desc [of f xs] ht by auto
  moreover have "h \<in> set xs" using ht set_array_sort [of "\<lambda>a b. f b - f a" xs] by auto
  ultimately have hm: "f h = ?m" using mx by fastforce
  obtain rest where r: "filter (\<lambda>e. f e = ?m) xs = xs ! i # rest"
    using filter_first [of i xs "\<lambda>e. f e = ?m"] i first by auto
  have "filter (\<lambda>e. f e = ?m) ?s = h # filter (\<lambda>e. f e = ?m) t" using ht hm by simp
  then have "h = xs ! i" using r stable_array_sort_desc [of f ?m xs] by simp
  then show ?thesis using ht by simp
qed




section \<open>Properties of the resolver\<close>

lemma pick_fst_cases:
  "fst (pick (best, bp) (i, c)) = best \<or> fst (pick (best, bp) (i, c)) = Some c"
  by (simp add: Let_def)

lemma foldl_pick_member:
  "fst (foldl pick st ics) = fst st \<or> (\<exists>ic\<in>set ics. fst (foldl pick st ics) = Some (snd ic))"
proof (induction ics arbitrary: st)
  case Nil
  then show ?case by simp
next
  case (Cons ic ics)
  obtain best bp where st: "st = (best, bp)" by (cases st)
  obtain i c where ic: "ic = (i, c)" by (cases ic)
  from Cons [of "pick st ic"] pick_fst_cases [of best bp i c]
  show ?case unfolding st ic by auto
qed

lemma pick_first:
  "\<exists>c' p. pick (None, NegInf) (i, c) = (Some c', Fin p)"
  by (simp add: Let_def)

lemma pick_some:
  "\<exists>c' p'. pick (Some b, Fin p) ic = (Some c', Fin p')"
  by (cases ic) (simp add: Let_def)

lemma foldl_pick_some:
  "\<exists>c' p'. foldl pick (Some b, Fin p) ics = (Some c', Fin p')"
proof (induction ics arbitrary: b p)
  case Nil
  then show ?case by simp
next
  case (Cons ic ics)
  obtain c' p' where "pick (Some b, Fin p) ic = (Some c', Fin p')" using pick_some by blast
  then show ?case using Cons [of c' p'] by simp
qed

lemma set_enumerate_snd: "snd ` set (enumerate n xs) = set xs"
  by (induction xs arbitrary: n) auto

lemma resolve_None_iff:
  "resolveConditionalResult results scoreMap = None \<longleftrightarrow>
     (\<forall>r\<in>set results. \<not> resultMatchesConditions r scoreMap)"
proof -
  let ?cands = "filter (\<lambda>result. resultMatchesConditions (snd result) scoreMap) (enumerate 0 results)"
  have "?cands = [] \<longleftrightarrow>
          (\<forall>r\<in>snd ` set (enumerate 0 results). \<not> resultMatchesConditions r scoreMap)"
    by (simp add: filter_empty_conv)
  then have e: "?cands = [] \<longleftrightarrow> (\<forall>r\<in>set results. \<not> resultMatchesConditions r scoreMap)"
    by (simp only: set_enumerate_snd)
  show ?thesis
  proof (cases "?cands = []")
    case True
    then show ?thesis using e by (simp add: resolveConditionalResult_def)
  next
    case False
    then obtain c cs where cs: "enumerate 0 ?cands = (0, c) # cs"
      by (cases ?cands) auto
    obtain c' p where p: "pick (None, NegInf) (0, c) = (Some c', Fin p)" using pick_first by blast
    have "foldl pick (None, NegInf) (enumerate 0 ?cands) = foldl pick (pick (None, NegInf) (0, c)) cs"
      by (simp only: cs foldl_Cons)
    then have "foldl pick (None, NegInf) (enumerate 0 ?cands) = foldl pick (Some c', Fin p) cs"
      by (simp only: p)
    then have "\<exists>c'' p''. foldl pick (None, NegInf) (enumerate 0 ?cands) = (Some c'', Fin p'')"
      using foldl_pick_some [of c' p cs] by simp
    then obtain c'' p'' where "foldl pick (None, NegInf) (enumerate 0 ?cands) = (Some c'', Fin p'')"
      by blast
    then have "resolveConditionalResult results scoreMap = Some (snd c'')"
      using False by (simp add: resolveConditionalResult_def)
    then have "resolveConditionalResult results scoreMap \<noteq> None" by simp
    moreover have "\<not> (\<forall>r\<in>set results. \<not> resultMatchesConditions r scoreMap)"
      using e False by blast
    ultimately show ?thesis by blast
  qed
qed

lemma resolve_member:
  "resolveConditionalResult results scoreMap = Some r \<Longrightarrow> r \<in> set results"
proof -
  assume a: "resolveConditionalResult results scoreMap = Some r"
  let ?cands = "filter (\<lambda>result. resultMatchesConditions (snd result) scoreMap) (enumerate 0 results)"
  from a have ne: "?cands \<noteq> []" by (auto simp: resolveConditionalResult_def split: if_splits)
  with a have f: "map_option snd (fst (foldl pick (None, NegInf) (enumerate 0 ?cands))) = Some r"
    by (simp add: resolveConditionalResult_def)
  then obtain c where c: "fst (foldl pick (None, NegInf) (enumerate 0 ?cands)) = Some c" "snd c = r"
    by auto
  with foldl_pick_member [of "(None, NegInf)" "enumerate 0 ?cands"]
  obtain ic where "ic \<in> set (enumerate 0 ?cands)" "snd ic = c" by auto
  then have "c \<in> set ?cands" using set_enumerate_snd [of 0 ?cands] by (metis imageI)
  then have "c \<in> set (enumerate 0 results)" by simp
  then show ?thesis using c(2) set_enumerate_snd [of 0 results] by (metis imageI)
qed

lemma summary_or_empty: "r\<lparr>rp_summary := (if rp_summary r \<noteq> [] then rp_summary r else [])\<rparr> = r"
  by simp

lemma nth_opt_member: "nth_opt xs n = Some x \<Longrightarrow> x \<in> set xs"
  by (induction xs n rule: nth_opt.induct) auto

lemma find_member: "find P xs = Some x \<Longrightarrow> x \<in> set xs"
  by (auto simp: find_Some_iff)

lemma defaultResult_member: "defaultResult results = placeholder \<or> defaultResult results \<in> set results"
  by (auto simp: defaultResult_def split: option.splits dest: find_member nth_opt_member)

lemma computeResult_fallback_eq:
  assumes "resolveConditionalResult results scoreMap = None"
  shows "computeResult results scoreMap =
    (case dominantOrder scoreMap of
       [] \<Rightarrow> (defaultResult results)\<lparr>rp_extra := Some
           (if foldl (\<lambda>sum v. sum + \<bar>v\<bar>) 0 (map snd scoreMap) > 18 then str ''High signal''
            else if foldl (\<lambda>sum v. sum + \<bar>v\<bar>) 0 (map snd scoreMap) > 10 then str ''Moderate signal''
            else str ''Soft signal'')\<rparr>
     | topId # rest \<Rightarrow>
         (case (if truthy (map_of fallbackMap topId)
                then find (\<lambda>result. rp_id result = the (map_of fallbackMap topId)) results
                else None) of
            Some r \<Rightarrow> r
          | None \<Rightarrow> defaultResult results)
         \<lparr>rp_extra := Some (str ''Dominant: '' @ topId @
             (if truthy (nth_opt (topId # rest) 1) then str '', Secondary: '' @ the (nth_opt (topId # rest) 1) else []))\<rparr>)"
  using assms
  by (simp add: computeResult_def Let_def split: list.splits option.splits)

lemma find_filter: "find P xs = (case filter P xs of [] \<Rightarrow> None | x # _ \<Rightarrow> Some x)"
  by (induction xs) auto

lemma nth_opt_0: "nth_opt xs 0 = (case xs of [] \<Rightarrow> None | x # _ \<Rightarrow> Some x)"
  by (cases xs) auto

lemma defaultResult_spec:
  "defaultResult results =
     (let sentinel = filter (\<lambda>r. rp_id r = str ''potion_calm'') results
      in if sentinel \<noteq> [] then hd sentinel else if results \<noteq> [] then hd results else placeholder)"
  by (simp add: defaultResult_def find_filter nth_opt_0 Let_def split: list.splits)

lemma fallbackMap_nonempty: "map_of fallbackMap k = Some m \<Longrightarrow> m \<noteq> []"
  by (auto simp: fallbackMap_def str_def split: if_splits)

lemma mapped_choice:
  "(case (if truthy (map_of fallbackMap topId)
          then find (\<lambda>result. rp_id result = the (map_of fallbackMap topId)) results
          else None) of
      Some r \<Rightarrow> r
    | None \<Rightarrow> defaultResult results) = chosenFallback results topId"
proof (cases "map_of fallbackMap topId")
  case None
  then show ?thesis by (simp add: chosenFallback_def defaultResult_spec Let_def)
next
  case (Some m)
  then have "m \<noteq> []" by (rule fallbackMap_nonempty)
  moreover have "filter (\<lambda>r. Some (rp_id r) = Some m) results = filter (\<lambda>r. rp_id r = m) results"
    by simp
  ultimately show ?thesis using Some
    by (simp add: chosenFallback_def defaultResult_spec find_filter Let_def split: list.splits)
qed

section \<open>Properties of assignment, accumulation and normalisation\<close>












text \<open>
  The order of a score vector is the order of the dimension list: the initial vector
  lists the dimensions as configured, and an answer keeps the entries in place.
\<close>

lemma assign_fresh: "k \<notin> fst ` set kvs \<Longrightarrow> assign k v kvs = kvs @ [(k, v)]"
  by (induction kvs) auto

lemma foldl_initial_scores:
  "distinct (map dim_id ds) \<Longrightarrow> dim_id ` set ds \<inter> fst ` set acc = {} \<Longrightarrow>
   foldl (\<lambda>acc d. assign (dim_id d) 0 acc) acc ds = acc @ map (\<lambda>d. (dim_id d, 0)) ds"
proof (induction ds arbitrary: acc)
  case Nil
  then show ?case by simp
next
  case (Cons d ds)
  have fresh: "dim_id d \<notin> fst ` set acc" using Cons.prems(2) by auto
  have "dim_id ` set ds \<inter> fst ` set (acc @ [(dim_id d, 0)]) = {}"
    using Cons.prems by auto
  then show ?case using Cons.IH [of "acc @ [(dim_id d, 0)]"] Cons.prems(1) fresh
    by (simp add: assign_fresh)
qed

lemma createInitialScores_order:
  "distinct (map dim_id dimensions) \<Longrightarrow>
   createInitialScores dimensions = map (\<lambda>d. (dim_id d, 0)) dimensions"
  using foldl_initial_scores [of dimensions "[]"] by (simp add: createInitialScores_def)

lemma keys_assign_order: "\<exists>new. map fst (assign k v kvs) = map fst kvs @ new"
  by (induction kvs) auto

lemma foldl_accumulate_order: "\<exists>new. map fst (foldl accumulate s ws) = map fst s @ new"
proof (induction ws arbitrary: s)
  case Nil
  then show ?case by simp
next
  case (Cons w ws)
  obtain n1 where n1: "map fst (accumulate s w) = map fst s @ n1"
  proof -
    have "\<exists>new. map fst (accumulate s w) = map fst s @ new"
      unfolding accumulate_def Let_def by (rule keys_assign_order)
    then show ?thesis using that by blast
  qed
  obtain n2 where "map fst (foldl accumulate (accumulate s w) ws) = map fst (accumulate s w) @ n2"
    using Cons [of "accumulate s w"] by blast
  then show ?case using n1 by simp
qed

lemma nextScores_keeps_order: "\<exists>new. map fst (nextScores scores option) = map fst scores @ new"
  by (simp add: nextScores_def foldl_accumulate_order)

section \<open>Properties of the codec\<close>



lemma replicate_pad: "replicate 3 x = [x, x, x]" "replicate 2 x = [x, x]" "replicate 1 x = [x]"
  by (simp_all add: numeral_3_eq_3 numeral_2_eq_2)

lemmas encode_simps =
  encodeShareState_def toBase64Url_def btoa_def JSON_stringify_def member_text_def
  QuoteJSONString_def Number_toString_def digits.simps replace_all_def b64_char_def
  lead_surrogate_def trail_surrogate_def unicode_escape_def hex_digit_def str_def

lemmas decode_simps =
  decodeShareState_def fromBase64Url_def atob_def strip_padding_def ascii_whitespace_def
  b64_index_def replace_all_def replicate_pad
  JSON_parse_def parse_value.simps parse_elements.simps
  parse_members.simps skip_ws_def json_whitespace_def scan_literal_def scan_number_def
  is_digit_def digits_value_def hex4_def hex_value_def str_def Let_def

section \<open>The round trip of the codec on Latin-1 payloads\<close>

subsection \<open>base64url\<close>

lemma pad_count_simps [simp]:
  "pad_count [] = 0" "pad_count [a] = 2" "pad_count [a, b] = 1"
  "pad_count (a # b # c # t) = pad_count t"
  by (simp_all add: pad_count_def)

lemma b64_encode_shape:
  "b64_encode t = map b64_char (sextets t) @ replicate (pad_count t) 61"
  by (induction t rule: sextets.induct) (simp_all add: numeral_2_eq_2)

lemma sextets_lt: "\<forall>c\<in>set t. c < 256 \<Longrightarrow> \<forall>x\<in>set (sextets t). x < 64"
  by (induction t rule: sextets.induct) (auto simp: less_mult_imp_div_less)

lemma b64_decode_sextets: "\<forall>c\<in>set t. c < 256 \<Longrightarrow> b64_decode (sextets t) = t"
proof (induction t rule: sextets.induct)
  case 1
  then show ?case by simp
next
  case (2 a)
  then show ?case by simp
next
  case (3 a b)
  then have "b div 16 < 16" by (simp add: less_mult_imp_div_less)
  then show ?case by simp
next
  case (4 a b c bytes)
  then have b: "b div 16 < 16" and c: "c div 64 < 4" by (simp_all add: less_mult_imp_div_less)
  have "b64_decode (sextets bytes) = bytes" using 4 by simp
  then show ?case using b c by simp
qed

lemma length_sextets:
  "length (sextets t) mod 4 \<noteq> 1 \<and> (4 - length (sextets t) mod 4) mod 4 = pad_count t \<and>
   (length (sextets t) + pad_count t) mod 4 = 0"
  by (induction t rule: sextets.induct) simp_all

lemma b64_index_char: "n < 64 \<Longrightarrow> b64_index (b64_char n) = Some n"
  by (auto simp: b64_index_def b64_char_def)

lemma b64_char_plain:
  "n < 64 \<Longrightarrow> b64_char n \<noteq> 61 \<and> b64_char n \<noteq> 45 \<and> b64_char n \<noteq> 95 \<and> \<not> ascii_whitespace (b64_char n)"
  by (auto simp: b64_char_def ascii_whitespace_def)

lemma url_swap_char:
  fixes c :: nat
  assumes "c \<noteq> 45" and "c \<noteq> 95" and "c \<noteq> 61"
  shows "(\<lambda>c. if c = 95 then 47 else c) ((\<lambda>c. if c = 45 then 43 else c)
           ((\<lambda>c. if c = 47 then 95 else c) ((\<lambda>c. if c = 43 then 45 else c) c))) = c"
    and "(\<lambda>c. if c = 47 then 95 else c) ((\<lambda>c. if c = 43 then 45 else c) c) \<noteq> 61"
  using assms by auto

lemma replace_all_append: "replace_all a b (xs @ ys) = replace_all a b xs @ replace_all a b ys"
  by (simp add: replace_all_def)

lemma replace_all_pad:
  "a \<noteq> 61 \<Longrightarrow> replace_all a b (replicate k 61) = replicate k 61"
  by (induction k) (simp_all add: replace_all_def)

lemma url_chars_body:
  assumes "\<forall>x\<in>set xs. x < 64"
  shows "replace_all 95 47 (replace_all 45 43 (url_chars (map b64_char xs))) = map b64_char xs"
    and "\<forall>c\<in>set (url_chars (map b64_char xs)). c \<noteq> 61"
    and "length (url_chars (map b64_char xs)) = length xs"
proof -
  have plain: "b64_char x \<noteq> 45 \<and> b64_char x \<noteq> 95 \<and> b64_char x \<noteq> 61" if "x \<in> set xs" for x
    using that assms b64_char_plain [of x] by simp
  show "replace_all 95 47 (replace_all 45 43 (url_chars (map b64_char xs))) = map b64_char xs"
    using plain
  proof (induction xs)
    case Nil
    then show ?case by (simp add: url_chars_def replace_all_def)
  next
    case (Cons x xs)
    have "b64_char x \<noteq> 45" "b64_char x \<noteq> 95" "b64_char x \<noteq> 61" using Cons.prems [of x] by simp_all
    then have "(\<lambda>c. if c = 95 then 47 else c) ((\<lambda>c. if c = 45 then 43 else c)
           ((\<lambda>c. if c = 47 then 95 else c) ((\<lambda>c. if c = 43 then 45 else c) (b64_char x)))) = b64_char x"
      by (rule url_swap_char)
    moreover have "replace_all 95 47 (replace_all 45 43 (url_chars (map b64_char xs))) = map b64_char xs"
      using Cons by simp
    ultimately show ?case by (simp add: url_chars_def replace_all_def)
  qed
  show "\<forall>c\<in>set (url_chars (map b64_char xs)). c \<noteq> 61"
  proof
    fix c assume "c \<in> set (url_chars (map b64_char xs))"
    then obtain x where x: "x \<in> set xs"
      and c: "c = (\<lambda>c. if c = 47 then 95 else c) ((\<lambda>c. if c = 43 then 45 else c) (b64_char x))"
      by (auto simp: url_chars_def replace_all_def)
    have "b64_char x \<noteq> 45" "b64_char x \<noteq> 95" "b64_char x \<noteq> 61" using plain [OF x] by simp_all
    then show "c \<noteq> 61" unfolding c by (rule url_swap_char)
  qed
  show "length (url_chars (map b64_char xs)) = length xs"
    by (simp add: url_chars_def replace_all_def)
qed

lemma dropWhile_pad:
  fixes xs :: "nat list"
  assumes a: "\<forall>c\<in>set xs. c \<noteq> 61"
  shows "rev (dropWhile (\<lambda>c. c = 61) (rev (xs @ replicate k 61))) = xs"
proof -
  have "dropWhile (\<lambda>c. c = 61) (replicate k 61 @ rev xs) = dropWhile (\<lambda>c. c = (61::nat)) (rev xs)"
    by (induction k) simp_all
  moreover have "dropWhile (\<lambda>c. c = (61::nat)) (rev xs) = rev xs"
    using a by (cases "rev xs") auto
  ultimately show ?thesis by simp
qed

lemma strip_padding_0:
  assumes "\<forall>c\<in>set xs. c \<noteq> 61" and "length xs mod 4 = 0"
  shows "strip_padding xs = xs"
proof (cases xs rule: rev_cases)
  case Nil
  then show ?thesis by (simp add: strip_padding_def)
next
  case (snoc ys y)
  then have "y \<noteq> 61" using assms(1) by simp
  then show ?thesis using snoc by (cases ys rule: rev_cases) (simp_all add: strip_padding_def)
qed

lemma strip_padding_1:
  assumes "\<forall>c\<in>set xs. c \<noteq> 61" and "(length xs + 1) mod 4 = 0" and "xs \<noteq> []"
  shows "strip_padding (xs @ [61]) = xs"
proof (cases xs rule: rev_cases)
  case Nil
  then show ?thesis using assms(3) by simp
next
  case (snoc ys y)
  then have "y \<noteq> 61" using assms(1) by simp
  then show ?thesis using snoc assms(2) by (simp add: strip_padding_def)
qed

lemma strip_padding_2:
  assumes "(length xs + 2) mod 4 = 0"
  shows "strip_padding (xs @ [61, 61]) = xs"
  using assms by (simp add: strip_padding_def)

lemma strip_padding_pad:
  assumes "\<forall>c\<in>set xs. c \<noteq> 61" and "(length xs + k) mod 4 = 0" and "k \<le> 2"
    and "k > 0 \<longrightarrow> xs \<noteq> []"
  shows "strip_padding (xs @ replicate k 61) = xs"
proof -
  consider "k = 0" | "k = 1" | "k = 2" using assms(3) by linarith
  then show ?thesis
  proof cases
    case 1
    then show ?thesis using strip_padding_0 [of xs] assms by simp
  next
    case 2
    then show ?thesis using strip_padding_1 [of xs] assms by simp
  next
    case 3
    then show ?thesis using strip_padding_2 [of xs] assms by (simp add: numeral_2_eq_2)
  qed
qed

lemma base64url_round_trip:
  assumes latin1: "\<forall>c\<in>set t. c < 256"
  shows "\<exists>e. toBase64Url t = Inr e \<and> fromBase64Url e = Inr t \<and> (t \<noteq> [] \<longrightarrow> e \<noteq> [])"
proof -
  let ?B = "map b64_char (sextets t)"
  let ?k = "pad_count t"
  let ?e = "url_chars ?B"
  have small: "\<forall>x\<in>set (sextets t). x < 64" using latin1 by (rule sextets_lt)
  have body: "replace_all 95 47 (replace_all 45 43 ?e) = ?B"
    and noeq: "\<forall>c\<in>set ?e. c \<noteq> 61" and len: "length ?e = length (sextets t)"
    by (rule url_chars_body [OF small])+
  have btoa: "btoa t = Inr (?B @ replicate ?k 61)"
    using latin1 by (auto simp: btoa_def b64_encode_shape list_ex_iff)
  have "replace_all 47 95 (replace_all 43 45 (?B @ replicate ?k 61)) = ?e @ replicate ?k 61"
    by (simp add: replace_all_append replace_all_pad url_chars_def)
  then have enc: "toBase64Url t = Inr ?e"
    using btoa dropWhile_pad [OF noeq] by (simp add: toBase64Url_def)
  have k: "(4 - length ?B mod 4) mod 4 = ?k" and not1: "length ?B mod 4 \<noteq> 1"
    using length_sextets [of t] by simp_all
  have k2: "?k \<le> 2" by (simp add: pad_count_def) 
  have Bnoeq: "\<forall>c\<in>set ?B. c \<noteq> 61" using small b64_char_plain by auto
  have Bnows: "filter (\<lambda>c. \<not> ascii_whitespace c) (?B @ replicate ?k 61) = ?B @ replicate ?k 61"
    using small b64_char_plain by (auto simp: filter_id_conv ascii_whitespace_def)
  have mod0: "(length ?B + ?k) mod 4 = 0" using length_sextets [of t] by simp
  have ne: "?k > 0 \<longrightarrow> ?B \<noteq> []" using k by auto
  have strip: "strip_padding (?B @ replicate ?k 61) = ?B"
    using strip_padding_pad [OF Bnoeq mod0 k2 ne] .
  have idx: "map (\<lambda>c. the (b64_index c)) ?B = sextets t"
    using small by (simp add: b64_index_char map_idI)
  have ok: "\<not> list_ex (\<lambda>c. b64_index c = None) ?B"
    using small by (auto simp: list_ex_iff b64_index_char)
  have "atob (?B @ replicate ?k 61) = Inr t"
    using Bnows strip not1 ok idx b64_decode_sextets [OF latin1] by (simp add: atob_def)
  then have dec: "fromBase64Url ?e = Inr t"
    using body k by (simp add: fromBase64Url_def)
  have "t \<noteq> [] \<longrightarrow> ?e \<noteq> []"
    using len by (cases t rule: sextets.cases) auto
  then show ?thesis using enc dec by blast
qed

subsection \<open>Numbers printed and read back\<close>

lemma digits_value_snoc: "digits_value (ds @ [d]) = 10 * digits_value ds + (d - 48)"
  by (simp add: digits_value_def)

lemma digits_props:
  "digits n \<noteq> [] \<and> (\<forall>c\<in>set (digits n). is_digit c) \<and> digits_value (digits n) = n \<and>
   (hd (digits n) = 48 \<longrightarrow> n = 0)"
proof (induction n rule: digits.induct)
  case (1 n)
  show ?case
  proof (cases "n < 10")
    case True
    then show ?thesis by (subst (1 2 3 4) digits.simps) (simp add: is_digit_def digits_value_def)
  next
    case False
    then have ih: "digits (n div 10) \<noteq> [] \<and> (\<forall>c\<in>set (digits (n div 10)). is_digit c) \<and>
      digits_value (digits (n div 10)) = n div 10 \<and> (hd (digits (n div 10)) = 48 \<longrightarrow> n div 10 = 0)"
      using 1 by simp
    have unfold: "digits n = digits (n div 10) @ [48 + n mod 10]"
      using False by (subst digits.simps) simp
    have "is_digit (48 + n mod 10)" by (simp add: is_digit_def)
    moreover have "n div 10 \<noteq> 0" using False by simp
    ultimately show ?thesis using ih unfolding unfold by (simp add: digits_value_snoc)
  qed
qed

lemma digits_single: "length (digits n) > 1 \<Longrightarrow> hd (digits n) \<noteq> 48"
proof
  assume l: "length (digits n) > 1" and h: "hd (digits n) = 48"
  then have "n = 0" using digits_props [of n] by simp
  then have "digits n = [48]" by (subst digits.simps) simp
  then show False using l by simp
qed

lemma takeWhile_digits:
  "\<not> is_digit r \<Longrightarrow> takeWhile is_digit (digits n @ r # rest) = digits n \<and>
     dropWhile is_digit (digits n @ r # rest) = r # rest"
  using digits_props [of n] by (simp add: takeWhile_append2 dropWhile_append2)

lemma scan_number_nat:
  assumes "value_end r"
  shows "scan_number (digits n @ r # rest) = Some (JNum (of_nat n), r # rest)"
proof -
  have r: "\<not> is_digit r" "r \<noteq> 46" "r \<noteq> 101" "r \<noteq> 69"
    using assms by (auto simp: value_end_def is_digit_def)
  obtain d ds where d: "digits n = d # ds" using digits_props [of n] by (cases "digits n") auto
  then have "is_digit d" using digits_props [of n] by simp
  then have d45: "d \<noteq> 45" by (auto simp: is_digit_def)
  have tw: "takeWhile is_digit (d # ds @ r # rest) = d # ds"
    "dropWhile is_digit (d # ds @ r # rest) = r # rest"
    using takeWhile_digits [OF r(1), of n rest] d by simp_all
  have lead: "\<not> (length (d # ds) > 1 \<and> d = 48)"
    using digits_single [of n] d by auto
  have v: "digits_value (d # ds) = n" using digits_props [of n] d by simp
  show ?thesis
    unfolding d using d45 tw lead v r
    by (simp add: scan_number_def Let_def digits_value_def)
qed

lemma scan_number_int:
  assumes "value_end r"
  shows "scan_number (Number_toString i @ r # rest) = Some (JNum (of_int i), r # rest)"
proof (cases "i < 0")
  case False
  then show ?thesis using scan_number_nat [OF assms, of "nat i" rest]
    by (simp add: Number_toString_def)
next
  case True
  have r: "\<not> is_digit r" "r \<noteq> 46" "r \<noteq> 101" "r \<noteq> 69"
    using assms by (auto simp: value_end_def is_digit_def)
  let ?n = "nat (- i)"
  obtain d ds where d: "digits ?n = d # ds" using digits_props [of ?n] by (cases "digits ?n") auto
  have tw: "takeWhile is_digit (d # ds @ r # rest) = d # ds"
    "dropWhile is_digit (d # ds @ r # rest) = r # rest"
    using takeWhile_digits [OF r(1), of ?n rest] d by simp_all
  have lead: "\<not> (length (d # ds) > 1 \<and> d = 48)"
    using digits_single [of ?n] d by auto
  have v: "digits_value (d # ds) = ?n" using digits_props [of ?n] d by simp
  have "(of_nat ?n :: rat) = - of_int i" using True by simp
  then show ?thesis
    using True tw lead v r unfolding Number_toString_def d
    by (simp add: scan_number_def Let_def digits_value_def)
qed

lemma Number_toString_head:
  "\<exists>c cs. Number_toString i = c # cs \<and> (is_digit c \<or> c = 45)"
  using digits_props [of "nat i"] digits_props [of "nat (- i)"]
  by (cases "digits (nat i)") (auto simp: Number_toString_def)

lemma parse_value_int:
  assumes "value_end r"
  shows "parse_value (Number_toString i @ r # rest) = Some (JNum (of_int i), r # rest)"
proof -
  obtain c cs where c: "Number_toString i = c # cs" "is_digit c \<or> c = 45"
    using Number_toString_head by blast
  then have ws: "\<not> json_whitespace c" and sp: "c \<noteq> 91" "c \<noteq> 123" "c \<noteq> 34"
     and lit: "c \<noteq> 116" "c \<noteq> 102" "c \<noteq> 110"
    by (auto simp: is_digit_def json_whitespace_def)
  have "scan_literal (c # cs @ r # rest) = scan_number (c # cs @ r # rest)"
    using lit by (simp add: scan_literal_def str_def take_Cons')
  then have "parse_value (c # cs @ r # rest) = scan_number (c # cs @ r # rest)"
    using ws sp by (subst parse_value.simps) (simp add: skip_ws_def)
  then show ?thesis using scan_number_int [OF assms, of i rest] c by simp
qed

subsection \<open>Strings\<close>

lemma hex_digit_value: "n < 16 \<Longrightarrow> hex_value (hex_digit n) = Some n"
  by (auto simp: hex_value_def hex_digit_def)

lemma hex4_escape:
  "c < 32 \<Longrightarrow>
   hex4 (hex_digit (c div 4096)) (hex_digit (c div 256 mod 16)) (hex_digit (c div 16 mod 16))
        (hex_digit (c mod 16)) = Some c"
proof -
  assume c: "c < 32"
  then have "c div 4096 = 0" "c div 256 = 0" "c div 16 < 16" by simp_all
  then show ?thesis
    by (simp add: hex4_def hex_digit_value)
qed

lemma scan_string_quote_units:
  "\<forall>c\<in>set s. c < 256 \<Longrightarrow>
   scan_string (quote_units s @ 34 # rest) acc = Some (acc @ s, rest)"
proof (induction s arbitrary: acc)
  case Nil
  then show ?case by simp
next
  case (Cons c s)
  then have c: "c < 256" and ih: "\<And>acc. scan_string (quote_units s @ 34 # rest) acc = Some (acc @ s, rest)"
    by simp_all
  have ns: "\<not> lead_surrogate c" "\<not> trail_surrogate c"
    using c by (simp_all add: lead_surrogate_def trail_surrogate_def)
  consider "c = 8" | "c = 9" | "c = 10" | "c = 12" | "c = 13" | "c = 34" | "c = 92"
    | "c < 32" "c \<noteq> 8" "c \<noteq> 9" "c \<noteq> 10" "c \<noteq> 12" "c \<noteq> 13"
    | "c \<ge> 32" "c \<noteq> 34" "c \<noteq> 92"
    by linarith
  then show ?case
  proof cases
    case 8
    then show ?thesis
      using ih [of "acc @ [c]"] hex4_escape [of c] by (simp add: unicode_escape_def)
  next
    case 9
    then show ?thesis using ih [of "acc @ [c]"] ns by simp
  qed (use ih [of "acc @ [c]"] in simp_all)
qed

lemma parse_value_string:
  "\<forall>c\<in>set s. c < 256 \<Longrightarrow>
   parse_value (QuoteJSONString s @ rest) = Some (JStr s, rest)"
  using scan_string_quote_units [of s rest "[]"]
  by (subst parse_value.simps) (simp add: QuoteJSONString_def skip_ws_def json_whitespace_def)

subsection \<open>Arrays of numbers\<close>

lemma skip_ws_value_end: "value_end r \<Longrightarrow> skip_ws (r # rest) = r # rest"
  by (auto simp: value_end_def skip_ws_def json_whitespace_def)

lemma Number_toString_nonempty: "Number_toString i \<noteq> []"
  using Number_toString_head [of i] by auto

lemma parse_elements_numbers:
  "parse_elements (join [44] (map Number_toString (a # as)) @ 93 # rest) acc =
     Some (JArr (acc @ map (\<lambda>a. JNum (of_int a)) (a # as)), rest)"
proof (induction as arbitrary: a acc)
  case Nil
  have "parse_value (Number_toString a @ 93 # rest) = Some (JNum (of_int a), 93 # rest)"
    by (rule parse_value_int) (simp add: value_end_def)
  then show ?case
    using Number_toString_nonempty [of a]
    by (subst parse_elements.simps) (simp add: skip_ws_def json_whitespace_def)
next
  case (Cons b bs)
  let ?tail = "join [44] (map Number_toString (b # bs)) @ 93 # rest"
  have "parse_value (Number_toString a @ 44 # ?tail) = Some (JNum (of_int a), 44 # ?tail)"
    by (rule parse_value_int) (simp add: value_end_def)
  then show ?case
    using Number_toString_nonempty [of a] Cons [of b "acc @ [JNum (of_int a)]"]
    by (subst parse_elements.simps) (simp add: skip_ws_def json_whitespace_def)
qed

lemma parse_value_array:
  "parse_value (91 # join [44] (map Number_toString as) @ 93 # rest) =
     Some (JArr (map (\<lambda>a. JNum (of_int a)) as), rest)"
proof (cases as)
  case Nil
  then show ?thesis
    by (subst parse_value.simps) (simp add: skip_ws_def json_whitespace_def)
next
  case (Cons a as')
  obtain c cs where c: "Number_toString a = c # cs" "is_digit c \<or> c = 45"
    using Number_toString_head by blast
  then have ws: "\<not> json_whitespace c" "c \<noteq> 93"
    by (auto simp: is_digit_def json_whitespace_def)
  have j: "\<exists>t. join [44] (map Number_toString (a # as')) = c # t"
    using c by (cases as') simp_all
  then obtain t where t: "join [44] (map Number_toString (a # as')) = c # t" by blast
  have "parse_value (91 # (c # t) @ 93 # rest) = parse_elements ((c # t) @ 93 # rest) []"
    using ws by (subst parse_value.simps) (simp add: skip_ws_def json_whitespace_def)
  then show ?thesis
    using parse_elements_numbers [of a as' rest "[]"] Cons t by simp
qed

subsection \<open>Objects\<close>

lemma parse_value_string':
  "\<forall>c\<in>set s. c < 256 \<Longrightarrow>
   parse_value (34 # quote_units s @ 34 # rest) = Some (JStr s, rest)"
  using parse_value_string [of s rest] by (simp add: QuoteJSONString_def)

lemma parse_members_step:
  assumes k: "\<forall>c\<in>set k. c < 256"
    and v: "parse_value (vtext @ d # rest) = Some (v, d # rest)"
    and ne: "vtext \<noteq> []"
    and d: "d = 44 \<or> d = 125"
  shows "parse_members (34 # quote_units k @ 34 # 58 # vtext @ d # rest) acc =
           (if d = 44 then parse_members rest (assign k v acc)
            else Some (JObj (assign k v acc), rest))"
proof -
  have key: "scan_string (quote_units k @ 34 # 58 # vtext @ d # rest) [] =
               Some (k, 58 # vtext @ d # rest)"
    using scan_string_quote_units [OF k, of "58 # vtext @ d # rest" "[]"] by simp
  have ws: "skip_ws (d # rest) = d # rest"
    using d by (auto simp: skip_ws_def json_whitespace_def)
  have len: "length rest < length vtext + length rest" using ne by simp
  show ?thesis
    using key v ws d len
    by (subst parse_members.simps) (auto simp: skip_ws_def json_whitespace_def)
qed

lemma parse_members_scores:
  assumes "\<forall>e\<in>set (e # es). \<forall>c\<in>set (fst e). c < 256"
    and "distinct (map fst (e # es))"
    and "fst ` set (e # es) \<inter> fst ` set acc = {}"
  shows "parse_members (join [44] (map member_text (e # es)) @ 125 # rest) acc =
           Some (JObj (acc @ map (\<lambda>e. (fst e, JNum (of_int (snd e)))) (e # es)), rest)"
  using assms
proof (induction es arbitrary: e acc)
  case Nil
  have pv: "parse_value (Number_toString (snd e) @ 125 # rest) = Some (JNum (of_int (snd e)), 125 # rest)"
    by (rule parse_value_int) (simp add: value_end_def)
  have fresh: "fst e \<notin> fst ` set acc" using Nil.prems(3) by auto
  have "parse_members (34 # quote_units (fst e) @ 34 # 58 # Number_toString (snd e) @ 125 # rest) acc =
          Some (JObj (assign (fst e) (JNum (of_int (snd e))) acc), rest)"
    using parse_members_step [OF _ pv Number_toString_nonempty, of "fst e" acc] Nil.prems(1) by simp
  then show ?case using fresh by (simp add: member_text_def QuoteJSONString_def assign_fresh)
next
  case (Cons e' es)
  let ?tail = "join [44] (map member_text (e' # es)) @ 125 # rest"
  have pv: "parse_value (Number_toString (snd e) @ 44 # ?tail) = Some (JNum (of_int (snd e)), 44 # ?tail)"
    by (rule parse_value_int) (simp add: value_end_def)
  have fresh: "fst e \<notin> fst ` set acc" using Cons.prems(3) by auto
  have step: "parse_members (34 # quote_units (fst e) @ 34 # 58 # Number_toString (snd e) @ 44 # ?tail) acc =
          parse_members ?tail (assign (fst e) (JNum (of_int (snd e))) acc)"
    using parse_members_step [OF _ pv Number_toString_nonempty, of "fst e" acc] Cons.prems(1) by simp
  have p1: "\<forall>x\<in>set (e' # es). \<forall>c\<in>set (fst x). c < 256" using Cons.prems(1) by simp
  have p2: "distinct (map fst (e' # es))" using Cons.prems(2) by simp
  have p3: "fst ` set (e' # es) \<inter> fst ` set (acc @ [(fst e, JNum (of_int (snd e)))]) = {}"
    using Cons.prems(2,3) by auto
  have ih: "parse_members ?tail (acc @ [(fst e, JNum (of_int (snd e)))]) =
          Some (JObj ((acc @ [(fst e, JNum (of_int (snd e)))]) @
                  map (\<lambda>e. (fst e, JNum (of_int (snd e)))) (e' # es)), rest)"
    by (rule Cons.IH [OF p1 p2 p3])
  have shape: "join [44] (map member_text (e # e' # es)) @ 125 # rest =
      34 # quote_units (fst e) @ 34 # 58 # Number_toString (snd e) @ 44 # ?tail"
    by (simp add: member_text_def QuoteJSONString_def)
  have "parse_members (join [44] (map member_text (e # e' # es)) @ 125 # rest) acc =
          parse_members ?tail (assign (fst e) (JNum (of_int (snd e))) acc)"
    by (simp only: shape step)
  also have "\<dots> = parse_members ?tail (acc @ [(fst e, JNum (of_int (snd e)))])"
    by (simp only: assign_fresh [OF fresh])
  also have "\<dots> = Some (JObj ((acc @ [(fst e, JNum (of_int (snd e)))]) @
                  map (\<lambda>e. (fst e, JNum (of_int (snd e)))) (e' # es)), rest)"
    by (rule ih)
  finally show ?case by simp
qed

lemma parse_value_scores:
  assumes "\<forall>e\<in>set es. \<forall>c\<in>set (fst e). c < 256" and "distinct (map fst es)"
  shows "parse_value (123 # join [44] (map member_text es) @ 125 # rest) =
           Some (JObj (map (\<lambda>e. (fst e, JNum (of_int (snd e)))) es), rest)"
proof (cases es)
  case Nil
  then show ?thesis
    by (subst parse_value.simps) (simp add: skip_ws_def json_whitespace_def)
next
  case (Cons e es')
  have j: "\<exists>t. join [44] (map member_text (e # es')) = 34 # t"
    by (cases es') (simp_all add: member_text_def QuoteJSONString_def)
  then obtain t where t: "join [44] (map member_text (e # es')) = 34 # t" by blast
  have "parse_value (123 # (34 # t) @ 125 # rest) = parse_members ((34 # t) @ 125 # rest) []"
    by (subst parse_value.simps) (simp add: skip_ws_def json_whitespace_def)
  moreover have "parse_members (join [44] (map member_text (e # es')) @ 125 # rest) [] =
           Some (JObj ([] @ map (\<lambda>e. (fst e, JNum (of_int (snd e)))) (e # es')), rest)"
    using assms Cons by (intro parse_members_scores) simp_all
  ultimately show ?thesis using Cons t by simp
qed

subsection \<open>Payloads\<close>

lemma parse_value_one: "parse_value (49 # 44 # rest) = Some (JNum 1, 44 # rest)"
  by (subst parse_value.simps)
     (simp add: skip_ws_def json_whitespace_def scan_literal_def scan_number_def is_digit_def
        digits_value_def str_def Let_def)

lemma quote_units_ascii_keys:
  "quote_units (str ''v'') = str ''v''" "quote_units (str ''resultId'') = str ''resultId''"
  "quote_units (str ''scores'') = str ''scores''" "quote_units (str ''answers'') = str ''answers''"
  by (simp_all add: str_def lead_surrogate_def trail_surrogate_def)

lemma JSON_parse_stringify:
  assumes rid: "\<forall>c\<in>set (ss_resultId p). c < 256"
    and keys: "\<forall>e\<in>set (ss_scores p). \<forall>c\<in>set (fst e). c < 256"
    and dist: "distinct (map fst (ss_scores p))"
  shows "JSON_parse (JSON_stringify p) = Inr (payload_value p)"
proof -
  let ?A = "join [44] (map Number_toString (ss_answers p))"
  let ?J = "join [44] (map member_text (ss_scores p))"
  let ?va = "JArr (map (\<lambda>a. JNum (of_int a)) (ss_answers p))"
  let ?vs = "JObj (map (\<lambda>e. (fst e, JNum (of_int (snd e)))) (ss_scores p))"
  let ?vr = "JStr (ss_resultId p)"
  let ?t4 = "34 # quote_units (str ''answers'') @ 34 # 58 # (91 # ?A @ [93]) @ 125 # []"
  let ?t3 = "34 # quote_units (str ''scores'') @ 34 # 58 # (123 # ?J @ [125]) @ 44 # ?t4"
  let ?t2 = "34 # quote_units (str ''resultId'') @ 34 # 58 # (34 # quote_units (ss_resultId p) @ [34]) @ 44 # ?t3"
  let ?t1 = "34 # quote_units (str ''v'') @ 34 # 58 # [49] @ 44 # ?t2"
  have ascii: "\<forall>c\<in>set (str ''v''). c < 256" "\<forall>c\<in>set (str ''resultId''). c < 256"
    "\<forall>c\<in>set (str ''scores''). c < 256" "\<forall>c\<in>set (str ''answers''). c < 256"
    by (simp_all add: str_def)
  have v1: "parse_value ([49] @ 44 # ?t2) = Some (JNum 1, 44 # ?t2)"
    using parse_value_one by simp
  have v2: "parse_value ((34 # quote_units (ss_resultId p) @ [34]) @ 44 # ?t3) = Some (?vr, 44 # ?t3)"
    using parse_value_string' [OF rid, of "44 # ?t3"] by simp
  have v3: "parse_value ((123 # ?J @ [125]) @ 44 # ?t4) = Some (?vs, 44 # ?t4)"
    using parse_value_scores [OF keys dist, of "44 # ?t4"] by simp
  have v4: "parse_value ((91 # ?A @ [93]) @ 125 # []) = Some (?va, 125 # [])"
    using parse_value_array [of "ss_answers p" "125 # []"] by simp
  have m1: "parse_members ?t1 [] = parse_members ?t2 (assign (str ''v'') (JNum 1) [])"
    using parse_members_step [OF ascii(1) v1, of "[]"] by simp
  have m2: "parse_members ?t2 acc = parse_members ?t3 (assign (str ''resultId'') ?vr acc)" for acc
    using parse_members_step [OF ascii(2) v2, of acc] by simp
  have m3: "parse_members ?t3 acc = parse_members ?t4 (assign (str ''scores'') ?vs acc)" for acc
    using parse_members_step [OF ascii(3) v3, of acc] by simp
  have m4: "parse_members ?t4 acc = Some (JObj (assign (str ''answers'') ?va acc), [])" for acc
    using parse_members_step [OF ascii(4) v4, of acc] by simp
  have obj: "assign (str ''answers'') ?va (assign (str ''scores'') ?vs
               (assign (str ''resultId'') ?vr (assign (str ''v'') (JNum 1) []))) =
             [(str ''v'', JNum 1), (str ''resultId'', ?vr), (str ''scores'', ?vs), (str ''answers'', ?va)]"
    by (simp add: str_def)
  have members: "parse_members ?t1 [] = Some (payload_value p, [])"
    unfolding m1 m2 m3 m4 obj by (simp add: payload_value_def case_prod_unfold)
  have shape: "JSON_stringify p = 123 # ?t1"
    by (simp add: JSON_stringify_def QuoteJSONString_def str_def lead_surrogate_def trail_surrogate_def)
  have "parse_value (123 # ?t1) = parse_members ?t1 []"
    by (subst parse_value.simps) (simp add: skip_ws_def json_whitespace_def)
  then show ?thesis
    unfolding shape using members by (simp add: JSON_parse_def skip_ws_def)
qed

lemma quote_units_latin1: "\<forall>c\<in>set s. c < 256 \<Longrightarrow> \<forall>c\<in>set (quote_units s). c < 256"
proof (induction s)
  case Nil
  then show ?case by simp
next
  case (Cons c s)
  then have c: "c < 256" and ih: "\<forall>c\<in>set (quote_units s). c < 256" by simp_all
  have ns: "\<not> lead_surrogate c" "\<not> trail_surrogate c"
    using c by (simp_all add: lead_surrogate_def trail_surrogate_def)
  have h: "hex_digit n < 256" if "n < 16" for n using that by (simp add: hex_digit_def)
  have "c div 4096 = 0" "c div 256 = 0" "c div 16 < 16" "c mod 16 < 16" using c by simp_all
  then have esc: "\<forall>x\<in>set (unicode_escape c). x < 256"
    using h [of 0] h [of "c div 16"] h [of "c mod 16"] by (simp add: unicode_escape_def)
  define x where "x =
    (if c = 8 then [92, 98] else if c = 9 then [92, 116] else if c = 10 then [92, 110]
     else if c = 12 then [92, 102] else if c = 13 then [92, 114] else if c = 34 then [92, 34]
     else if c = 92 then [92, 92] else if c < 32 then unicode_escape c else [c])"
  have "quote_units (c # s) = x @ quote_units s" using ns by (simp add: x_def)
  moreover have "\<forall>y\<in>set x. y < 256" using c esc by (simp add: x_def)
  ultimately show ?case using ih by auto
qed

lemma join_set: "set (join sep xs) \<subseteq> set sep \<union> (\<Union>x\<in>set xs. set x)"
  by (induction sep xs rule: join.induct) auto

lemma digits_ascii: "\<forall>c\<in>set (digits n). c < 256"
proof
  fix c assume "c \<in> set (digits n)"
  then have "is_digit c" using digits_props [of n] by blast
  then show "c < 256" by (simp add: is_digit_def)
qed

lemma Number_toString_ascii: "\<forall>c\<in>set (Number_toString i). c < 256"
  by (simp add: Number_toString_def digits_ascii)

lemma JSON_stringify_latin1:
  assumes rid: "\<forall>c\<in>set (ss_resultId p). c < 256"
    and keys: "\<forall>e\<in>set (ss_scores p). \<forall>c\<in>set (fst e). c < 256"
  shows "\<forall>c\<in>set (JSON_stringify p). c < 256"
proof -
  have e: "\<forall>c\<in>set (member_text e). c < 256" if "e \<in> set (ss_scores p)" for e
    using that keys quote_units_latin1 [of "fst e"] Number_toString_ascii [of "snd e"]
    by (auto simp: member_text_def QuoteJSONString_def)
  have J: "\<forall>c\<in>set (join [44] (map member_text (ss_scores p))). c < 256"
    using join_set [of "[44]" "map member_text (ss_scores p)"] e by fastforce
  have A: "\<forall>c\<in>set (join [44] (map Number_toString (ss_answers p))). c < 256"
    using join_set [of "[44]" "map Number_toString (ss_answers p)"] Number_toString_ascii by fastforce
  have Q: "\<forall>c\<in>set (QuoteJSONString (ss_resultId p)). c < 256"
    using quote_units_latin1 [OF rid] by (simp add: QuoteJSONString_def)
  have lits: "\<forall>c\<in>set (str ''{\"v\":1,\"resultId\":''). c < 256"
      "\<forall>c\<in>set (str '',\"scores\":{''). c < 256" "\<forall>c\<in>set (str ''},\"answers\":[''). c < 256"
      "\<forall>c\<in>set (str '']}''). c < 256"
    by (simp_all add: str_def)
  show ?thesis
    unfolding JSON_stringify_def using J A Q lits by (simp only: set_append) blast
qed

lemma share_state_round_trip:
  assumes rid: "\<forall>c\<in>set (ss_resultId p). c < 256"
    and keys: "\<forall>e\<in>set (ss_scores p). \<forall>c\<in>set (fst e). c < 256"
    and dist: "distinct (map fst (ss_scores p))"
  shows "\<exists>e. encodeShareState p = Inr e \<and> decodeShareState (Some e) = Some (payload_value p)"
proof -
  let ?t = "JSON_stringify p"
  have ne: "?t \<noteq> []" by (simp add: JSON_stringify_def str_def)
  obtain e where e: "toBase64Url ?t = Inr e" "fromBase64Url e = Inr ?t" "e \<noteq> []"
    using base64url_round_trip [OF JSON_stringify_latin1 [OF rid keys]] ne by blast
  have p: "JSON_parse ?t = Inr (payload_value p)"
    by (rule JSON_parse_stringify [OF rid keys dist])
  have ok: "property (payload_value p) (str ''v'') = Some (JNum 1)"
    "is_string (property (payload_value p) (str ''resultId''))"
    by (simp_all add: payload_value_def str_def)
  have "decodeShareState (Some e) = Some (payload_value p)"
    using e p ok by (simp add: decodeShareState_def)
  then show ?thesis using e(1) by (simp add: encodeShareState_def)
qed

section \<open>The claims\<close>

text \<open>
  Claim C1. When two eligible candidates tie on the highest priority, the resolver returns
  the one whose index in the full results list is smaller. The code compares the
  candidate-list index of the newcomer with the full-list index of the current best:
  in \<open>tie_results\<close> the candidates are \<open>a\<close> and \<open>b\<close> (full indices 2 and 3, candidate
  indices 0 and 1), and since \<open>1 < 2\<close> the later result \<open>b\<close> replaces \<open>a\<close>.
\<close>

theorem resolve_tie_prefers_later_result:
  "resultMatchesConditions (tie_results ! 2) [(str ''calm'', 0)] \<and>
   resultMatchesConditions (tie_results ! 3) [(str ''calm'', 0)] \<and>
   rp_priority (tie_results ! 2) = rp_priority (tie_results ! 3) \<and>
   resolveConditionalResult tie_results [(str ''calm'', 0)] = Some (tie_results ! 3) \<and>
   rp_id (tie_results ! 2) = str ''a'' \<and> rp_id (tie_results ! 3) = str ''b''"
  by (simp add: resolveConditionalResult_def tie_results_def blank_result_def
      calm_at_least_10_def blank_condition_def resultMatchesConditions_def meetsCondition_def
      meetsTyped_def score_of_def str_def)

text \<open>
  Claim C2, as amended. For every results list and score vector \<open>computeResult\<close> returns
  one result profile: an element of \<open>results\<close> or the synthetic placeholder, with its
  \<open>extra\<close> set. On the empty list it is the placeholder, whose id is \<open>fallback\<close>, whose
  title is \<open>Your Potion\<close> (not empty), and whose summary and signals are empty. The model
  has no raising branch because the source has none on inputs of its declared types.
\<close>

theorem computeResult_total:
  "(\<exists>base extra. (base = placeholder \<or> base \<in> set results) \<and>
       computeResult results scoreMap = base\<lparr>rp_extra := Some extra\<rparr>) \<and>
   (\<exists>extra. computeResult [] scoreMap = placeholder\<lparr>rp_extra := Some extra\<rparr>) \<and>
   rp_id placeholder = str ''fallback'' \<and> rp_title placeholder = str ''Your Potion'' \<and>
   rp_summary placeholder = [] \<and> rp_signals placeholder = Some []"
proof -
  have a: "\<exists>base extra. (base = placeholder \<or> base \<in> set results) \<and>
       computeResult results scoreMap = base\<lparr>rp_extra := Some extra\<rparr>" for results
  proof (cases "resolveConditionalResult results scoreMap")
    case None
    show ?thesis
    proof (cases "dominantOrder scoreMap")
      case Nil
      then show ?thesis
        using computeResult_fallback_eq [OF None] defaultResult_member [of results]
        by (simp only: list.case) blast
    next
      case (Cons topId rest)
      let ?m = "(if truthy (map_of fallbackMap topId)
                then find (\<lambda>result. rp_id result = the (map_of fallbackMap topId)) results
                else None)"
      show ?thesis
      proof (cases ?m)
        case None
        then show ?thesis
          using computeResult_fallback_eq [OF \<open>resolveConditionalResult results scoreMap = None\<close>]
            defaultResult_member [of results] Cons
          by (simp only: list.case option.case) blast
      next
        case (Some r)
        then have "r \<in> set results" by (auto split: if_splits dest: find_member)
        then show ?thesis
          using computeResult_fallback_eq [OF \<open>resolveConditionalResult results scoreMap = None\<close>]
            Cons Some
          by (simp only: list.case option.case) blast
      qed
    qed
  next
    case (Some r)
    then have "r \<in> set results" by (rule resolve_member)
    moreover have "computeResult results scoreMap =
       r\<lparr>rp_extra := Some (if truthy (rp_extra r) then the (rp_extra r) else [])\<rparr>"
      using Some by (simp add: computeResult_def)
    ultimately show ?thesis by blast
  qed
  have b: "\<exists>extra. computeResult [] scoreMap = placeholder\<lparr>rp_extra := Some extra\<rparr>"
    using a [of "[]"] by auto
  show ?thesis using a [of results] b by (simp add: placeholder_def)
qed

text \<open>
  Claim C2 as stated fails: the outcome for an empty results list has the title
  \<open>Your Potion\<close>, not the empty title.
\<close>

theorem computeResult_placeholder_title:
  "rp_title (computeResult [] []) = str ''Your Potion'' \<and> rp_title (computeResult [] []) \<noteq> []"
  by (simp add: computeResult_def resolveConditionalResult_def dominantOrder_def array_sort_def
      defaultResult_def placeholder_def str_def)

text \<open>
  An ASCII payload does round-trip: the encoded string decodes to the payload's value.
\<close>

lemma share_state_round_trip_example:
  "encodeShareState \<lparr>ss_resultId = str ''potion_x'', ss_scores = [(str ''calm'', 3)],
      ss_answers = [0]\<rparr> =
     Inr (str ''eyJ2IjoxLCJyZXN1bHRJZCI6InBvdGlvbl94Iiwic2NvcmVzIjp7ImNhbG0iOjN9LCJhbnN3ZXJzIjpbMF19'') \<and>
   decodeShareState (Some (str
      ''eyJ2IjoxLCJyZXN1bHRJZCI6InBvdGlvbl94Iiwic2NvcmVzIjp7ImNhbG0iOjN9LCJhbnN3ZXJzIjpbMF19'')) =
     Some (payload_value \<lparr>ss_resultId = str ''potion_x'', ss_scores = [(str ''calm'', 3)],
      ss_answers = [0]\<rparr>)"
proof -
  have b: "encodeShareState \<lparr>ss_resultId = str ''potion_x'', ss_scores = [(str ''calm'', 3)],
      ss_answers = [0]\<rparr> =
     Inr (str ''eyJ2IjoxLCJyZXN1bHRJZCI6InBvdGlvbl94Iiwic2NvcmVzIjp7ImNhbG0iOjN9LCJhbnN3ZXJzIjpbMF19'')"
    by (simp add: encode_simps)
  have c: "decodeShareState (Some (str
      ''eyJ2IjoxLCJyZXN1bHRJZCI6InBvdGlvbl94Iiwic2NvcmVzIjp7ImNhbG0iOjN9LCJhbnN3ZXJzIjpbMF19'')) =
     Some (payload_value \<lparr>ss_resultId = str ''potion_x'', ss_scores = [(str ''calm'', 3)],
      ss_answers = [0]\<rparr>)"
    by (simp add: decode_simps payload_value_def)
  show ?thesis by (intro conjI b c)
qed

text \<open>
  Claim C3. For every payload with \<open>v = 1\<close> and a string \<open>resultId\<close>, decoding the encoded
  payload gives the payload back. \<open>encodeShareState\<close> passes the JSON text to \<open>btoa\<close>, which
  throws on a code unit above \<open>0xFF\<close>: for the \<open>resultId\<close> \<open>potion_\<close> followed by U+2603
  the encoder throws and there is nothing to decode, while the same payload with the
  \<open>resultId\<close> \<open>potion_x\<close> is encoded. (On payloads whose strings stay within Latin-1
  the round trip holds: \<open>share_state_round_trip\<close>.)
\<close>

theorem encodeShareState_throws_outside_latin1:
  "encodeShareState \<lparr>ss_resultId = str ''potion_'' @ [9731], ss_scores = [(str ''calm'', 3)],
      ss_answers = [0]\<rparr> = Inl InvalidCharacterError \<and>
   encodeShareState \<lparr>ss_resultId = str ''potion_x'', ss_scores = [(str ''calm'', 3)],
      ss_answers = [0]\<rparr> =
     Inr (str ''eyJ2IjoxLCJyZXN1bHRJZCI6InBvdGlvbl94Iiwic2NvcmVzIjp7ImNhbG0iOjN9LCJhbnN3ZXJzIjpbMF19'')"
  by (simp add: encode_simps)





text \<open>
  Claim C6. Condition evaluation fails open: an absent condition is true, and so is a
  condition that has not the legacy shape (a \<open>dim\<close> and no \<open>type\<close>) and whose \<open>type\<close> is
  none of the recognised kinds. The evaluator is a total boolean function: no branch of
  the source raises.
\<close>

theorem meetsCondition_fails_open:
  "meetsCondition None scoreMap \<and>
   (\<not> (truthy (c_dim c) \<and> \<not> truthy (c_type c)) \<and> c_type c \<notin> Some ` set recognized_types
     \<longrightarrow> meetsCondition (Some c) scoreMap)"
  by (auto simp: meetsCondition_def meetsTyped_def recognized_types_def Let_def)

theorem meetsCondition_fails_open_witness:
  "meetsCondition None [(str ''calm'', -3)] \<and>
   meetsCondition
     (Some (blank_condition\<lparr>c_type := Some (str ''at_least''), c_dim := Some (str ''calm''),
                            c_value := Some 10\<rparr>))
     [(str ''calm'', -3)]"
  using meetsCondition_fails_open
    [of "[(str ''calm'', -3)]"
        "blank_condition\<lparr>c_type := Some (str ''at_least''), c_dim := Some (str ''calm''),
                         c_value := Some 10\<rparr>"]
  by (simp add: recognized_types_def blank_condition_def str_def)





text \<open>
  Claim C9, as amended. For a non-empty score vector that no result matches, the
  dominant dimension is the first entry of largest absolute value (the entries are
  ordered by absolute value, largest first, entries of equal absolute value in the order
  of the vector). The outcome is built from \<open>chosenFallback\<close>: the result the static map
  names for the dominant dimension (\<open>calm\<close> gives \<open>potion_top_calm\<close>), else the sentinel
  \<open>potion_calm\<close>, else the first entry of \<open>results\<close>, else (for an empty list) the
  placeholder. Its \<open>extra\<close> is \<open>Dominant: <top>\<close>, followed by \<open>, Secondary: <second>\<close>
  when a second dimension exists and its id is not the empty string.
\<close>

theorem computeResult_fallback:
  assumes nomatch: "\<forall>r\<in>set results. \<not> resultMatchesConditions r scoreMap"
    and i: "i < length scoreMap"
    and mx: "\<forall>e\<in>set scoreMap. \<bar>snd e\<bar> \<le> \<bar>snd (scoreMap ! i)\<bar>"
    and first: "\<forall>k<i. \<bar>snd (scoreMap ! k)\<bar> \<noteq> \<bar>snd (scoreMap ! i)\<bar>"
  shows "\<exists>rest.
     dominantOrder scoreMap = fst (scoreMap ! i) # rest \<and>
     sorted_wrt (\<lambda>a b. \<bar>snd a\<bar> \<ge> \<bar>snd b\<bar>) (array_sort (\<lambda>a b. \<bar>snd b\<bar> - \<bar>snd a\<bar>) scoreMap) \<and>
     (\<forall>v. filter (\<lambda>e. \<bar>snd e\<bar> = v) (array_sort (\<lambda>a b. \<bar>snd b\<bar> - \<bar>snd a\<bar>) scoreMap)
            = filter (\<lambda>e. \<bar>snd e\<bar> = v) scoreMap) \<and>
     map_of fallbackMap (str ''calm'') = Some (str ''potion_top_calm'') \<and>
     computeResult results scoreMap =
       (chosenFallback results (fst (scoreMap ! i)))
         \<lparr>rp_extra := Some (str ''Dominant: '' @ fst (scoreMap ! i) @
            (case rest of
               [] \<Rightarrow> []
             | second # _ \<Rightarrow> if second = [] then [] else str '', Secondary: '' @ second))\<rparr>"
proof -
  let ?f = "\<lambda>e::jsstring \<times> int. \<bar>snd e\<bar>"
  obtain t where t: "array_sort (\<lambda>a b. ?f b - ?f a) scoreMap = scoreMap ! i # t"
    using array_sort_desc_head [of i scoreMap ?f] i mx first by blast
  then have d: "dominantOrder scoreMap = fst (scoreMap ! i) # map fst t"
    by (simp add: dominantOrder_def)
  have none: "resolveConditionalResult results scoreMap = None"
    using nomatch by (simp add: resolve_None_iff)
  have sec: "(if truthy (nth_opt (fst (scoreMap ! i) # map fst t) 1)
              then str '', Secondary: '' @ the (nth_opt (fst (scoreMap ! i) # map fst t) 1) else [])
           = (case map fst t of [] \<Rightarrow> [] | second # _ \<Rightarrow> if second = [] then [] else str '', Secondary: '' @ second)"
    by (cases "map fst t") simp_all
  have c: "computeResult results scoreMap =
       (chosenFallback results (fst (scoreMap ! i)))
         \<lparr>rp_extra := Some (str ''Dominant: '' @ fst (scoreMap ! i) @
            (case map fst t of
               [] \<Rightarrow> []
             | second # _ \<Rightarrow> if second = [] then [] else str '', Secondary: '' @ second))\<rparr>"
    using computeResult_fallback_eq [OF none] d sec mapped_choice [where topId = "fst (scoreMap ! i)" and results = results]
    by (simp only: list.case)
  have s: "sorted_wrt (\<lambda>a b. ?f a \<ge> ?f b) (array_sort (\<lambda>a b. ?f b - ?f a) scoreMap)"
    by (rule sorted_array_sort_desc)
  have st: "\<forall>v. filter (\<lambda>e. ?f e = v) (array_sort (\<lambda>a b. ?f b - ?f a) scoreMap) = filter (\<lambda>e. ?f e = v) scoreMap"
    by (simp add: stable_array_sort_desc)
  have m: "map_of fallbackMap (str ''calm'') = Some (str ''potion_top_calm'')"
    by (simp add: fallbackMap_def)
  show ?thesis using d s st m c by blast
qed

text \<open>
  Claim C9 as stated fails for an empty results list and a second dimension with the
  empty id: the outcome is the placeholder, not an entry of \<open>results\<close>, and its \<open>extra\<close>
  names no secondary dimension although the vector has two entries.
\<close>

theorem computeResult_fallback_counterexample:
  "computeResult [] [(str ''calm'', 5), ([], 1)] = placeholder\<lparr>rp_extra := Some (str ''Dominant: calm'')\<rparr> \<and>
   dominantOrder [(str ''calm'', 5), ([], 1)] = [str ''calm'', []]"
  by (simp add: computeResult_def resolveConditionalResult_def dominantOrder_def array_sort_def
      defaultResult_def fallbackMap_def str_def)

text \<open>
  Witness: with \<open>{calm: 5, focus: -7, tempo: 7}\<close> and two unmatched results, \<open>focus\<close> is
  dominant and \<open>potion_top_focus\<close> is chosen.
\<close>

theorem computeResult_fallback_witness:
  "computeResult fallback_results [(str ''calm'', 5), (str ''focus'', -7), (str ''tempo'', 7)] =
     (fallback_results ! 1)\<lparr>rp_extra := Some (str ''Dominant: focus, Secondary: tempo'')\<rparr>"
proof -
  let ?sm = "[(str ''calm'', 5), (str ''focus'', -7), (str ''tempo'', 7::int)]"
  have h: "\<forall>r\<in>set fallback_results. \<not> resultMatchesConditions r ?sm" "1 < length ?sm"
    "\<forall>e\<in>set ?sm. \<bar>snd e\<bar> \<le> \<bar>snd (?sm ! 1)\<bar>" "\<forall>k<1. \<bar>snd (?sm ! k)\<bar> \<noteq> \<bar>snd (?sm ! 1)\<bar>"
    by (simp_all add: fallback_results_def blank_result_def calm_at_least_10_def blank_condition_def
        resultMatchesConditions_def meetsCondition_def meetsTyped_def score_of_def str_def)
  have d: "dominantOrder ?sm = [str ''focus'', str ''tempo'', str ''calm'']"
    by (simp add: dominantOrder_def array_sort_def)
  have ch: "chosenFallback fallback_results (str ''focus'') = fallback_results ! 1"
    by (simp add: chosenFallback_def fallback_results_def fallbackMap_def blank_result_def str_def)
  show ?thesis using computeResult_fallback [OF h] d ch by (auto simp: str_def)
qed

text \<open>
  Claim C10. A typed condition of kind \<open>min\<close>, \<open>max_le\<close> or \<open>max_ge\<close> without a \<open>dim\<close> field
  is evaluated on the dimension \<open>calm\<close>: \<open>{type: "min", value: v}\<close> is
  \<open>(scoreMap["calm"] ?? 0) >= v\<close>.
\<close>

theorem typed_condition_defaults_to_calm:
  "c_dim c = None \<Longrightarrow>
   (c_type c = Some (str ''min'') \<longrightarrow>
      meetsCondition (Some c) scoreMap =
        (score_of scoreMap (str ''calm'') \<ge> (case c_value c of Some v \<Rightarrow> v | None \<Rightarrow> 0))) \<and>
   (c_type c = Some (str ''max_le'') \<longrightarrow>
      meetsCondition (Some c) scoreMap =
        (score_of scoreMap (str ''calm'') \<le> (case c_value c of Some v \<Rightarrow> v | None \<Rightarrow> 0))) \<and>
   (c_type c = Some (str ''max_ge'') \<longrightarrow>
      meetsCondition (Some c) scoreMap =
        (score_of scoreMap (str ''calm'') \<ge> (case c_value c of Some v \<Rightarrow> v | None \<Rightarrow> 0)))"
  by (simp add: meetsCondition_def meetsTyped_def Let_def str_def)

theorem typed_condition_defaults_to_calm_witness:
  "c_dim (blank_condition\<lparr>c_type := Some (str ''min''), c_value := Some 4\<rparr>) = None \<and>
   meetsCondition (Some (blank_condition\<lparr>c_type := Some (str ''min''), c_value := Some 4\<rparr>))
     [(str ''focus'', 9), (str ''calm'', 5)] \<and>
   \<not> meetsCondition (Some (blank_condition\<lparr>c_type := Some (str ''min''), c_value := Some 4\<rparr>))
     [(str ''focus'', 9), (str ''calm'', 3)]"
  using typed_condition_defaults_to_calm
    [of "blank_condition\<lparr>c_type := Some (str ''min''), c_value := Some 4\<rparr>"
        "[(str ''focus'', 9), (str ''calm'', 5)]"]
    typed_condition_defaults_to_calm
    [of "blank_condition\<lparr>c_type := Some (str ''min''), c_value := Some 4\<rparr>"
        "[(str ''focus'', 9), (str ''calm'', 3)]"]
  by (simp add: blank_condition_def score_of_def str_def)

end
